theory Spec2Isabelle
  imports Main "HOL-Library.Word" "HOL-Library.AList" "HOL-Library.Finite_Map"
    "HOL-Library.Signed_Division"
begin

chapter \<open>The model\<close>

section \<open>Go values shared by the models\<close>

text \<open>
  Counters and latencies are Go \<open>int64\<close> values that are added up, so they are 64-bit words
  and \<open>+\<close> wraps. Change numbers, \<open>since\<close> values, epoch seconds and bulk sizes are compared,
  or subtracted only where the result stays between zero and the value itself; they are
  modelled as \<open>int\<close>, and the one place where their 64-bit range matters (parsing the query
  parameter) writes the range check out.
\<close>

type_synonym int64 = "64 word"

text \<open>Run-time panics of the Go program, kept apart from the \<open>error\<close> values it returns.\<close>

datatype panic = NilPointerDereference | SliceBoundsOutOfRange | IntegerDivideByZero

section \<open>In-memory stats storage (splitio/stats/storage.go)\<close>

definition lastStoredLatencies :: nat where
  "lastStoredLatencies = 500"

datatype stats_error = notStorageInitialiazedError

text \<open>\<open>CounterStorage\<close> and \<open>LatencyStorage\<close> hold one Go map each (the mutex is left out).\<close>

type_synonym CounterStorage = "string \<rightharpoonup> int64"
type_synonym LatencyStorage = "string \<rightharpoonup> int64 list"

text \<open>
  The package-level variables. \<open>countersStorage\<close> and \<open>latenciesStorage\<close> are pointers:
  \<open>None\<close> is the nil pointer they hold until \<open>Initialize\<close> runs.
\<close>

record stats_state =
  storageInitialized :: bool
  countersStorage :: "CounterStorage option"
  latenciesStorage :: "LatencyStorage option"

definition initial_stats :: stats_state where
  "initial_stats =
     \<lparr>storageInitialized = False, countersStorage = None, latenciesStorage = None\<rparr>"

text \<open>\<open>c.counters[name] += value\<close>: a missing key reads as the zero value.\<close>

definition counter_of :: "CounterStorage \<Rightarrow> string \<Rightarrow> int64" where
  "counter_of c name = (case c name of None \<Rightarrow> 0 | Some v \<Rightarrow> v)"

definition CounterStorage_Add :: "CounterStorage \<Rightarrow> string \<Rightarrow> int64 \<Rightarrow> CounterStorage" where
  "CounterStorage_Add c name v = c(name \<mapsto> counter_of c name + v)"

text \<open>
  \<open>LatencyStorage.Add\<close>: a nil entry is replaced by an empty slice, the new values are
  appended, and only the last \<open>lastStoredLatencies\<close> values are kept.
\<close>

definition latencies_of :: "LatencyStorage \<Rightarrow> string \<Rightarrow> int64 list" where
  "latencies_of l name = (case l name of None \<Rightarrow> [] | Some xs \<Rightarrow> xs)"

definition LatencyStorage_Add :: "LatencyStorage \<Rightarrow> string \<Rightarrow> int64 list \<Rightarrow> LatencyStorage" where
  "LatencyStorage_Add l name v =
     (let appended = latencies_of l name @ v
      in if length appended > lastStoredLatencies
         then l(name \<mapsto> drop (length appended - lastStoredLatencies) appended)
         else l(name \<mapsto> appended))"

definition Initialize :: "stats_state \<Rightarrow> stats_state" where
  "Initialize st =
     \<lparr>storageInitialized = True, countersStorage = Some Map.empty,
      latenciesStorage = Some Map.empty\<rparr>"

definition SaveCounter ::
  "string \<Rightarrow> int64 \<Rightarrow> stats_state \<Rightarrow> panic + (stats_error option \<times> stats_state)" where
  "SaveCounter name v st =
     (if \<not> storageInitialized st then Inr (Some notStorageInitialiazedError, st)
      else case countersStorage st of
             None \<Rightarrow> Inl NilPointerDereference
           | Some c \<Rightarrow> Inr (None, st\<lparr>countersStorage := Some (CounterStorage_Add c name v)\<rparr>))"

definition SaveLatency ::
  "string \<Rightarrow> int64 list \<Rightarrow> stats_state \<Rightarrow> panic + (stats_error option \<times> stats_state)" where
  "SaveLatency name v st =
     (if \<not> storageInitialized st then Inr (Some notStorageInitialiazedError, st)
      else case latenciesStorage st of
             None \<Rightarrow> Inl NilPointerDereference
           | Some l \<Rightarrow> Inr (None, st\<lparr>latenciesStorage := Some (LatencyStorage_Add l name v)\<rparr>))"

text \<open>
  A history of calls into the stats API, run from the package's initial state. The error a
  call returns is dropped here, as a caller that ignores it would; a panic ends the run.
\<close>

datatype stats_call =
    CallInitialize
  | CallSaveCounter string int64
  | CallSaveLatency string "int64 list"

fun run_call :: "stats_call \<Rightarrow> stats_state \<Rightarrow> panic + stats_state" where
  "run_call CallInitialize st = Inr (Initialize st)"
| "run_call (CallSaveCounter name v) st =
     (case SaveCounter name v st of Inl p \<Rightarrow> Inl p | Inr (_, st') \<Rightarrow> Inr st')"
| "run_call (CallSaveLatency name v) st =
     (case SaveLatency name v st of Inl p \<Rightarrow> Inl p | Inr (_, st') \<Rightarrow> Inr st')"

fun run_calls :: "stats_call list \<Rightarrow> stats_state \<Rightarrow> panic + stats_state" where
  "run_calls [] st = Inr st"
| "run_calls (c # cs) st =
     (case run_call c st of Inl p \<Rightarrow> Inl p | Inr st' \<Rightarrow> run_calls cs st')"

text \<open>The state every call after \<open>Initialize\<close> finds: the flag set and both stores allocated.\<close>

definition stats_ready :: "stats_state \<Rightarrow> bool" where
  "stats_ready st =
     (storageInitialized st \<and> countersStorage st \<noteq> None \<and> latenciesStorage st \<noteq> None)"

section \<open>Legacy proxy controllers (splitio/proxy/controllers.go)\<close>

text \<open>
  The errors of the bolt store that the controllers tell apart: the sentinel
  \<open>ErrorBucketNotFound\<close>, and any other error with its message.
\<close>

datatype db_error = ErrorBucketNotFound | ErrorDB string

text \<open>The rows of the split-changes collection; \<open>item_JSON\<close> is the stored split body.\<close>

record SplitChangesItem =
  item_ChangeNumber :: int
  item_Name :: string
  item_Status :: string
  item_JSON :: string

text \<open>
  The loop of \<open>fetchSplitsFromDB\<close> over the fetched items, with the slice \<open>splits\<close> and
  the running \<open>till\<close> as accumulators.
\<close>

fun splits_loop :: "int \<Rightarrow> SplitChangesItem list \<Rightarrow> string list \<times> int \<Rightarrow> string list \<times> int" where
  "splits_loop since [] (splits, till) = (splits, till)"
| "splits_loop since (split # items) (splits, till) =
     (if item_Status split = ''ACTIVE'' \<and> item_ChangeNumber split > since
      then splits_loop since items
             (splits @ [item_JSON split],
              if item_ChangeNumber split > till then item_ChangeNumber split else till)
      else splits_loop since items (splits, till))"

text \<open>
  \<open>fetchSplitsFromDB\<close>: the first argument is what \<open>FetchAll\<close> returned. The result is the
  triple of the Go function (splits, till, error).
\<close>

definition fetchSplitsFromDB ::
  "db_error + SplitChangesItem list \<Rightarrow> int \<Rightarrow> string list \<times> int \<times> db_error option" where
  "fetchSplitsFromDB fetchAll since =
     (case fetchAll of
        Inl err \<Rightarrow> ([], since, Some err)
      | Inr items \<Rightarrow>
          (case splits_loop since items ([], since) of
             (splits, till) \<Rightarrow> (splits, till, None)))"

text \<open>A key delta of a stored segment, and the segment row with its deltas in iteration order.\<close>

record SegmentKey =
  skey_Name :: string
  skey_Removed :: bool
  skey_ChangeNumber :: int

record SegmentChangesItem =
  seg_Name :: string
  seg_Keys :: "SegmentKey list"

fun segments_loop ::
  "int \<Rightarrow> SegmentKey list \<Rightarrow> string list \<times> string list \<times> int \<Rightarrow> string list \<times> string list \<times> int" where
  "segments_loop since [] (added, removed, till) = (added, removed, till)"
| "segments_loop since (skey # keys) (added, removed, till) =
     (if skey_ChangeNumber skey > since
      then
        (let (added', removed') =
               (if skey_Removed skey
                then (if since > 0 then (added, removed @ [skey_Name skey]) else (added, removed))
                else (added @ [skey_Name skey], removed));
             till' =
               (if since > 0
                then (if skey_ChangeNumber skey > till then skey_ChangeNumber skey else till)
                else (if \<not> skey_Removed skey \<and> skey_ChangeNumber skey > till
                      then skey_ChangeNumber skey else till))
         in segments_loop since keys (added', removed', till'))
      else segments_loop since keys (added, removed, till))"

text \<open>
  \<open>fetchSegmentsFromDB\<close>: the first argument is what \<open>Fetch(segmentName)\<close> returned. The
  result is (added, removed, till, error).
\<close>

definition fetchSegmentsFromDB ::
  "db_error + SegmentChangesItem \<Rightarrow> int \<Rightarrow> string list \<times> string list \<times> int \<times> db_error option" where
  "fetchSegmentsFromDB fetch since =
     (case fetch of
        Inl err \<Rightarrow> ([], [], since, Some err)
      | Inr item \<Rightarrow>
          (case segments_loop since (seg_Keys item) ([], [], since) of
             (added, removed, till) \<Rightarrow> (added, removed, till, None)))"

section \<open>Proxy split storage (splitio/proxy/storage/splits.go)\<close>

text \<open>
  Go \<open>error\<close> values. \<open>Wrapped msg e\<close> is \<open>fmt.Errorf("msg: %w", e)\<close>; \<open>errors_Is\<close> follows
  the chain of wrapped errors as \<open>errors.Is\<close> does.
\<close>

datatype error =
    ErrSummaryNotCached
  | ErrorString string
  | HTTPError int string
  | Wrapped string error

fun errors_Is :: "error \<Rightarrow> error \<Rightarrow> bool" where
  "errors_Is (Wrapped msg e) target = (Wrapped msg e = target \<or> errors_Is e target)"
| "errors_Is e target = (e = target)"

text \<open>
  The fields of \<open>dtos.SplitDTO\<close> that the storage reads, with the targeting rules as an opaque
  body, and the payload \<open>dtos.SplitChangesDTO\<close>.
\<close>

record SplitDTO =
  split_Name :: string
  split_TrafficTypeName :: string
  split_Status :: string
  split_ChangeNumber :: int
  split_Body :: string

record SplitChangesDTO =
  dto_Since :: int
  dto_Till :: int
  dto_Splits :: "SplitDTO list"

text \<open>
  The in-memory snapshot \<open>mutexmap.MMSplitStorage\<close> of the commons library: the splits by name
  and the change number, which is \<open>-1\<close> in a new snapshot. Its \<open>ChangeNumber\<close> never fails,
  \<open>All\<close> lists every split, \<open>FetchMany\<close> answers each requested name with a pointer that
  is nil (\<open>None\<close>) when the name is not stored, and \<open>Update\<close> stores the added splits,
  deletes the removed ones by name and sets the change number. Go iterates maps in no fixed
  order; the model lists them in the order of the association list.
\<close>

record snapshot =
  snap_data :: "(string \<times> SplitDTO) list"
  snap_till :: int

definition NewMMSplitStorage :: snapshot where
  "NewMMSplitStorage = \<lparr>snap_data = [], snap_till = - 1\<rparr>"

definition snapshot_ChangeNumber :: "snapshot \<Rightarrow> error + int" where
  "snapshot_ChangeNumber s = Inr (snap_till s)"

definition snapshot_All :: "snapshot \<Rightarrow> SplitDTO list" where
  "snapshot_All s = map snd (snap_data s)"

definition snapshot_FetchMany :: "snapshot \<Rightarrow> string list \<Rightarrow> (string \<times> SplitDTO option) list" where
  "snapshot_FetchMany s names = map (\<lambda>n. (n, map_of (snap_data s) n)) (remdups names)"

definition snapshot_Update :: "SplitDTO list \<Rightarrow> SplitDTO list \<Rightarrow> int \<Rightarrow> snapshot \<Rightarrow> snapshot" where
  "snapshot_Update toAdd toRemove till s =
     \<lparr>snap_data =
        fold (\<lambda>split. AList.delete (split_Name split)) toRemove
          (fold (\<lambda>split. AList.update (split_Name split) split) toAdd (snap_data s)),
      snap_till = till\<rparr>"

text \<open>
  What \<open>ChangesSince\<close> and \<open>Update\<close> use of package \<open>optimized\<close>, which is not among the
  sources: the summary type with its two maps from split name to traffic type, the minimal
  view of a split (name and traffic type), and the functions \<open>NewSplitChangesSummaries\<close>,
  \<open>FetchSince\<close>, \<open>AddChanges\<close> and \<open>BuildArchivedSplitsFor\<close>. The functions are the fields
  of \<open>optimized_ops\<close>, over a cache state \<open>'r\<close>; the storage is modelled from the source for
  every choice of them.
\<close>

record ChangeSummary =
  sum_Updated :: "(string \<times> string) list"
  sum_Removed :: "(string \<times> string) list"

type_synonym SplitMinimalView = "string \<times> string"

record 'r optimized_ops =
  op_NewSplitChangesSummaries :: 'r
  op_FetchSince :: "'r \<Rightarrow> int \<Rightarrow> error + (ChangeSummary \<times> int)"
  op_AddChanges :: "int \<Rightarrow> SplitMinimalView list \<Rightarrow> SplitMinimalView list \<Rightarrow> 'r \<Rightarrow> 'r"
  op_BuildArchivedSplitsFor :: "(string \<times> string) list \<Rightarrow> SplitDTO list"

text \<open>
  \<open>ProxySplitStorageImpl\<close>: the snapshot and the recipes. The persistent collection only
  receives a copy of what \<open>Update\<close> stores and is left out, as is the mutex.
\<close>

record 'r ProxySplitStorageImpl =
  psi_snapshot :: snapshot
  psi_recipes :: 'r

definition NewProxySplitStorage :: "'r optimized_ops \<Rightarrow> 'r ProxySplitStorageImpl" where
  "NewProxySplitStorage ops =
     \<lparr>psi_snapshot = NewMMSplitStorage, psi_recipes = op_NewSplitChangesSummaries ops\<rparr>"

text \<open>Dereferencing every pointer \<open>FetchMany\<close> returned; one nil pointer makes it panic.\<close>

fun deref_all :: "(string \<times> SplitDTO option) list \<Rightarrow> SplitDTO list option" where
  "deref_all [] = Some []"
| "deref_all ((n, None) # rest) = None"
| "deref_all ((n, Some split) # rest) =
     (case deref_all rest of None \<Rightarrow> None | Some splits \<Rightarrow> Some (split # splits))"

definition ChangesSince ::
  "'r optimized_ops \<Rightarrow> 'r ProxySplitStorageImpl \<Rightarrow> int \<Rightarrow> panic + (error + SplitChangesDTO)" where
  "ChangesSince ops p since =
     (if since = - 1
      then (case snapshot_ChangeNumber (psi_snapshot p) of
              Inl err \<Rightarrow> Inr (Inl (Wrapped ''error fetching changeNumber from snapshot'' err))
            | Inr cn \<Rightarrow>
                Inr (Inr \<lparr>dto_Since = since, dto_Till = cn,
                          dto_Splits = snapshot_All (psi_snapshot p)\<rparr>))
      else (case op_FetchSince ops (psi_recipes p) since of
              Inl err \<Rightarrow>
                (if errors_Is err ErrSummaryNotCached then Inr (Inl ErrSummaryNotCached)
                 else Inr (Inl (Wrapped ''unexpected error when fetching changes summary'' err)))
            | Inr (summary, till) \<Rightarrow>
                (case deref_all (snapshot_FetchMany (psi_snapshot p)
                                   (map fst (sum_Updated summary))) of
                   None \<Rightarrow> Inl NilPointerDereference
                 | Some active \<Rightarrow>
                     Inr (Inr \<lparr>dto_Since = since, dto_Till = till,
                               dto_Splits =
                                 active @ op_BuildArchivedSplitsFor ops (sum_Removed summary)\<rparr>))))"

definition toSplitMinimalViews :: "SplitDTO list \<Rightarrow> SplitMinimalView list" where
  "toSplitMinimalViews items = map (\<lambda>dto. (split_Name dto, split_TrafficTypeName dto)) items"

definition Update ::
  "'r optimized_ops \<Rightarrow> SplitDTO list \<Rightarrow> SplitDTO list \<Rightarrow> int \<Rightarrow> 'r ProxySplitStorageImpl \<Rightarrow>
     'r ProxySplitStorageImpl" where
  "Update ops toAdd toRemove changeNumber p =
     (if toAdd = [] \<and> toRemove = [] then p
      else
        (let toAddViews = toSplitMinimalViews toAdd;
             toDelViews = toSplitMinimalViews toRemove
         in \<lparr>psi_snapshot = snapshot_Update toAdd toRemove changeNumber (psi_snapshot p),
             psi_recipes = op_AddChanges ops changeNumber toAddViews toDelViews (psi_recipes p)\<rparr>))"

text \<open>
  Modelled from the spec: the recipe cache of package \<open>optimized\<close>, which is not among the
  sources. A recipe is keyed by a change number and names the splits updated and removed
  at it, each with its traffic type. A new cache retains one recipe, the empty one at
  \<open>-1\<close>, the change number of the empty storage; \<open>update\<close> appends the recipe of its change
  number; retention is a fixed count, and the oldest recipes beyond it are evicted.
  Applying the retained recipes newer than \<open>since\<close> in order gives the names to update and
  to remove, and \<open>till\<close> is the largest retained change number. A \<open>since\<close> older than the
  oldest retained recipe fails with \<open>ErrSummaryNotCached\<close>. So does a \<open>since\<close> above the
  newest recipe: the since-till contract of the spec leaves no payload for it, and the spec
  names no other failure. The spec does not say what a cache without any recipe answers; the
  model lets it fail in the same way. The sentinel is the one \<open>ChangesSince\<close> tests for; it
  is declared in the storage's own package, and which error value the cache's package
  really returns on a miss cannot be read from the sources.
\<close>

record recipe =
  rcp_cn :: int
  rcp_updated :: "(string \<times> string) list"
  rcp_removed :: "(string \<times> string) list"

definition apply_recipe :: "recipe \<Rightarrow> ChangeSummary \<Rightarrow> ChangeSummary" where
  "apply_recipe r s =
     (let u1 = fold (\<lambda>(n, tt). AList.update n tt) (rcp_updated r) (sum_Updated s);
          r1 = fold (\<lambda>(n, tt). AList.delete n) (rcp_updated r) (sum_Removed s);
          r2 = fold (\<lambda>(n, tt). AList.update n tt) (rcp_removed r) r1;
          u2 = fold (\<lambda>(n, tt). AList.delete n) (rcp_removed r) u1
      in \<lparr>sum_Updated = u2, sum_Removed = r2\<rparr>)"

definition summary_since :: "recipe list \<Rightarrow> int \<Rightarrow> ChangeSummary" where
  "summary_since rs since =
     fold apply_recipe (sort_key rcp_cn (filter (\<lambda>r. since < rcp_cn r) rs))
       \<lparr>sum_Updated = [], sum_Removed = []\<rparr>"

definition older_than_retained :: "recipe list \<Rightarrow> int \<Rightarrow> bool" where
  "older_than_retained rs since = (rs \<noteq> [] \<and> since < Min (set (map rcp_cn rs)))"

definition newer_than_retained :: "recipe list \<Rightarrow> int \<Rightarrow> bool" where
  "newer_than_retained rs since = (rs \<noteq> [] \<and> Max (set (map rcp_cn rs)) < since)"

definition FetchSince :: "recipe list \<Rightarrow> int \<Rightarrow> error + (ChangeSummary \<times> int)" where
  "FetchSince rs since =
     (if rs = [] \<or> older_than_retained rs since \<or> newer_than_retained rs since
      then Inl ErrSummaryNotCached
      else Inr (summary_since rs since, Max (set (map rcp_cn rs))))"

definition NewSplitChangesSummaries :: "recipe list" where
  "NewSplitChangesSummaries = [\<lparr>rcp_cn = - 1, rcp_updated = [], rcp_removed = []\<rparr>]"

definition AddChanges ::
  "nat \<Rightarrow> int \<Rightarrow> SplitMinimalView list \<Rightarrow> SplitMinimalView list \<Rightarrow> recipe list \<Rightarrow> recipe list" where
  "AddChanges retention changeNumber toAdd toRemove rs =
     (let appended = rs @ [\<lparr>rcp_cn = changeNumber, rcp_updated = toAdd, rcp_removed = toRemove\<rparr>]
      in drop (length appended - retention) appended)"

text \<open>
  The cache of the spec as an instance of \<open>optimized_ops\<close>. The retention count and the
  builder of the archived splits, whose fields the spec does not fix, stay parameters.
\<close>

definition spec_cache ::
  "nat \<Rightarrow> ((string \<times> string) list \<Rightarrow> SplitDTO list) \<Rightarrow> recipe list optimized_ops" where
  "spec_cache retention build =
     \<lparr>op_NewSplitChangesSummaries = NewSplitChangesSummaries,
      op_FetchSince = FetchSince,
      op_AddChanges = AddChanges retention,
      op_BuildArchivedSplitsFor = build\<rparr>"

section \<open>SDK server controller (splitio/proxy/controllers/sdk.go)\<close>

text \<open>
  What the controller is built from: the upstream fetcher (\<open>Fetch since noCache\<close>), the
  storage's \<open>RegisterOlderCn\<close> (not among the sources), the functions of package
  \<open>optimized\<close> behind the split storage, and the segment storage's \<open>ChangesSince\<close>, whose
  payload is left abstract.
\<close>

record ('r, 'seg) sdk_deps =
  dep_Fetch :: "int \<Rightarrow> bool \<Rightarrow> error + SplitChangesDTO"
  dep_RegisterOlderCn :: "SplitChangesDTO \<Rightarrow> 'r ProxySplitStorageImpl \<Rightarrow> 'r ProxySplitStorageImpl"
  dep_optimized :: "'r optimized_ops"
  dep_SegmentChangesSince :: "string \<Rightarrow> int \<Rightarrow> error + 'seg"

text \<open>
  \<open>fetchSplitChangesSince\<close>: the payload or the error, and the storage as the call leaves it.
\<close>

definition fetchSplitChangesSince ::
  "('r, 'seg) sdk_deps \<Rightarrow> 'r ProxySplitStorageImpl \<Rightarrow> int \<Rightarrow>
     panic + ((error + SplitChangesDTO) \<times> 'r ProxySplitStorageImpl)" where
  "fetchSplitChangesSince c p since =
     (case ChangesSince (dep_optimized c) p since of
        Inl pn \<Rightarrow> Inl pn
      | Inr (Inr splits) \<Rightarrow> Inr (Inr splits, p)
      | Inr (Inl err) \<Rightarrow>
          (if \<not> errors_Is err ErrSummaryNotCached
           then Inr (Inl (Wrapped ''unexpected error fetching split changes from storage'' err), p)
           else (case dep_Fetch c since True of
                   Inr splits \<Rightarrow> Inr (Inr splits, dep_RegisterOlderCn c splits p)
                 | Inl err' \<Rightarrow>
                     Inr (Inl (Wrapped ''unexpected error fetching split changes from storage'' err'),
                          p))))"

section \<open>The since parameter of a request\<close>

text \<open>
  \<open>strconv.ParseInt(s, 10, 64)\<close>: an optional sign, then one or more decimal digits, and
  the value must fit in 64 bits. \<open>strconv.Atoi\<close> is the same function where \<open>int\<close> has 64
  bits, which is the platform modelled here.
\<close>

datatype NumError = ErrSyntax | ErrRange

definition is_digit :: "char \<Rightarrow> bool" where
  "is_digit c = (48 \<le> (of_char c :: nat) \<and> (of_char c :: nat) \<le> 57)"

definition digit_of :: "char \<Rightarrow> nat" where
  "digit_of c = of_char c - 48"

fun parse_digits :: "string \<Rightarrow> nat \<Rightarrow> nat option" where
  "parse_digits [] acc = Some acc"
| "parse_digits (c # cs) acc =
     (if is_digit c then parse_digits cs (acc * 10 + digit_of c) else None)"

definition ParseInt64 :: "string \<Rightarrow> NumError + int" where
  "ParseInt64 s =
     (case s of
        [] \<Rightarrow> Inl ErrSyntax
      | c # rest \<Rightarrow>
          (let neg = (c = CHR ''-'');
               ds = (if c = CHR ''+'' \<or> c = CHR ''-'' then rest else s)
           in if ds = [] then Inl ErrSyntax
              else (case parse_digits ds 0 of
                      None \<Rightarrow> Inl ErrSyntax
                    | Some un \<Rightarrow>
                        if \<not> neg \<and> un \<ge> 2 ^ 63 then Inl ErrRange
                        else if neg \<and> un > 2 ^ 63 then Inl ErrRange
                        else Inr (if neg then - int un else int un))))"

definition Atoi :: "string \<Rightarrow> NumError + int" where
  "Atoi s = ParseInt64 s"

text \<open>
  The query string of a request, as gin reads it: the first value of each key that is
  present. \<open>DefaultQuery\<close> returns that value, or the default when the key is absent.
\<close>

type_synonym query = "string \<rightharpoonup> string"

definition DefaultQuery :: "query \<Rightarrow> string \<Rightarrow> string \<Rightarrow> string" where
  "DefaultQuery q key dflt = (case q key of None \<Rightarrow> dflt | Some v \<Rightarrow> v)"

section \<open>SDK server handlers (splitio/proxy/controllers/sdk.go)\<close>

text \<open>
  The endpoint identifiers of the storage package, the status counts the handlers report
  to the endpoint telemetry (in call order), and the JSON response. Debug logging is left
  out.
\<close>

datatype endpoint = SplitChangesEndpoint | SegmentChangesEndpoint | MySegmentsEndpoint

datatype 'seg sdk_body =
    SplitChangesJSON SplitChangesDTO
  | SegmentChangesJSON 'seg
  | ErrorJSON error

record 'seg sdk_response =
  rsp_endpoint :: endpoint
  rsp_status :: int
  rsp_body :: "'seg sdk_body"

record 'r sdk_state =
  sdk_storage :: "'r ProxySplitStorageImpl"
  sdk_telemetry :: "(endpoint \<times> int) list"

definition SplitChanges ::
  "('r, 'seg) sdk_deps \<Rightarrow> query \<Rightarrow> 'r sdk_state \<Rightarrow>
     panic + ('seg sdk_response \<times> 'r sdk_state)" where
  "SplitChanges c q st =
     (let since = (case ParseInt64 (DefaultQuery q ''since'' ''-1'') of
                     Inl err \<Rightarrow> - 1
                   | Inr v \<Rightarrow> v)
      in case fetchSplitChangesSince c (sdk_storage st) since of
           Inl pn \<Rightarrow> Inl pn
         | Inr (Inl err, p') \<Rightarrow>
             Inr (\<lparr>rsp_endpoint = SplitChangesEndpoint, rsp_status = 500, rsp_body = ErrorJSON err\<rparr>,
                  st\<lparr>sdk_storage := p',
                     sdk_telemetry := sdk_telemetry st @ [(SplitChangesEndpoint, 500)]\<rparr>)
         | Inr (Inr splits, p') \<Rightarrow>
             Inr (\<lparr>rsp_endpoint = SplitChangesEndpoint, rsp_status = 200,
                   rsp_body = SplitChangesJSON splits\<rparr>,
                  st\<lparr>sdk_storage := p',
                     sdk_telemetry := sdk_telemetry st @ [(SplitChangesEndpoint, 200)]\<rparr>))"

definition SegmentChanges ::
  "('r, 'seg) sdk_deps \<Rightarrow> string \<Rightarrow> query \<Rightarrow> 'r sdk_state \<Rightarrow>
     'seg sdk_response \<times> 'r sdk_state" where
  "SegmentChanges c segmentName q st =
     (let since = (case ParseInt64 (DefaultQuery q ''since'' ''-1'') of
                     Inl err \<Rightarrow> - 1
                   | Inr v \<Rightarrow> v)
      in case dep_SegmentChangesSince c segmentName since of
           Inl err \<Rightarrow>
             (\<lparr>rsp_endpoint = SegmentChangesEndpoint, rsp_status = 404, rsp_body = ErrorJSON err\<rparr>,
              st\<lparr>sdk_telemetry := sdk_telemetry st @ [(SegmentChangesEndpoint, 404)]\<rparr>)
         | Inr payload \<Rightarrow>
             (\<lparr>rsp_endpoint = SegmentChangesEndpoint, rsp_status = 200,
               rsp_body = SegmentChangesJSON payload\<rparr>,
              st\<lparr>sdk_telemetry := sdk_telemetry st @ [(SegmentChangesEndpoint, 200)]\<rparr>))"

section \<open>Legacy handlers (splitio/proxy/controllers.go)\<close>

text \<open>
  The response of a legacy handler, with the counters it increments and the latency names
  it registers (the measured durations are left out).
\<close>

datatype legacy_body =
    SplitsH "string list" int int
  | SegmentH string "string list" "string list" int int
  | ErrorH db_error

record legacy_out =
  lo_status :: int
  lo_body :: legacy_body
  lo_counters :: "string list"
  lo_latencies :: "string list"

definition latencyFetchSplitsFromDB :: string where
  "latencyFetchSplitsFromDB = ''goproxy.FetchSplitsFromBoltDB''"

definition latencyFetchSegmentFromDB :: string where
  "latencyFetchSegmentFromDB = ''goproxy.FetchSegmentFromBoltDB''"

definition splitChanges :: "db_error + SplitChangesItem list \<Rightarrow> query \<Rightarrow> legacy_out" where
  "splitChanges fetchAll q =
     (let since = (case Atoi (DefaultQuery q ''since'' ''-1'') of Inl err \<Rightarrow> - 1 | Inr v \<Rightarrow> v)
      in case fetchSplitsFromDB fetchAll since of
           (splits, till, Some errf) \<Rightarrow>
             \<lparr>lo_status = 500, lo_body = ErrorH errf,
              lo_counters = [''splitChangeFetcher.status.500'', ''splitChangeFetcher.exception''],
              lo_latencies = []\<rparr>
         | (splits, till, None) \<Rightarrow>
             \<lparr>lo_status = 200, lo_body = SplitsH splits since till,
              lo_counters = [''splitChangeFetcher.status.200''],
              lo_latencies = [''splitChangeFetcher.time'', latencyFetchSplitsFromDB]\<rparr>)"

definition segmentChanges ::
  "(string \<Rightarrow> db_error + SegmentChangesItem) \<Rightarrow> string \<Rightarrow> query \<Rightarrow> legacy_out" where
  "segmentChanges fetchSegment segmentName q =
     (let since = (case Atoi (DefaultQuery q ''since'' ''-1'') of Inl err \<Rightarrow> - 1 | Inr v \<Rightarrow> v)
      in case fetchSegmentsFromDB (fetchSegment segmentName) since of
           (added, removed, till, Some errf) \<Rightarrow>
             \<lparr>lo_status = 500, lo_body = ErrorH errf,
              lo_counters = [''segmentChangeFetcher.status.500'', ''segmentChangeFetcher.exception''],
              lo_latencies = []\<rparr>
         | (added, removed, till, None) \<Rightarrow>
             \<lparr>lo_status = 200, lo_body = SegmentH segmentName added removed since till,
              lo_counters = [''segmentChangeFetcher.status.200''],
              lo_latencies = [''segmentChangeFetcher.time'', latencyFetchSegmentFromDB]\<rparr>)"

section \<open>Posting impressions upstream (splitio/api/post.go)\<close>

text \<open>
  Modelled from the spec: the HTTP client of the api package is not among the sources. It
  keeps the request headers by name; \<open>ResetHeaders\<close> empties them, \<open>AddHeader\<close> sets one,
  and \<open>Post\<close> sends the body to the URL with the headers it holds. The transport's answer
  is the parameter \<open>send\<close>.
\<close>

record Client =
  cl_headers :: "string \<rightharpoonup> string"

record Request =
  req_url :: string
  req_headers :: "string \<rightharpoonup> string"
  req_body :: string

definition ResetHeaders :: "Client \<Rightarrow> Client" where
  "ResetHeaders c = c\<lparr>cl_headers := Map.empty\<rparr>"

definition AddHeader :: "string \<Rightarrow> string \<Rightarrow> Client \<Rightarrow> Client" where
  "AddHeader name v c = c\<lparr>cl_headers := (cl_headers c)(name \<mapsto> v)\<rparr>"

definition Client_Post :: "(Request \<Rightarrow> error option) \<Rightarrow> Client \<Rightarrow> string \<Rightarrow> string \<Rightarrow> error option \<times> Request" where
  "Client_Post send c url data =
     (let req = \<lparr>req_url = url, req_headers = cl_headers c, req_body = data\<rparr>
      in (send req, req))"

text \<open>\<open>strings.Replace(s, ".", "-", -1)\<close>: every dot becomes a dash.\<close>

definition dashed :: "string \<Rightarrow> string" where
  "dashed s = map (\<lambda>ch. if ch = CHR ''.'' then CHR ''-'' else ch) s"

text \<open>
  \<open>PostImpressions\<close> works on a copy of the package's events client. It returns the error of
  the post; the model also returns the request that went out.
\<close>

definition PostImpressions ::
  "(Request \<Rightarrow> error option) \<Rightarrow> Client \<Rightarrow> string \<Rightarrow> string \<Rightarrow> string \<Rightarrow> error option \<times> Request" where
  "PostImpressions send eventsClient data sdkVersion machineIP =
     (let url = ''/testImpressions/bulk'';
          c0 = ResetHeaders eventsClient;
          c1 = AddHeader ''SplitSDKVersion'' sdkVersion c0;
          c2 = AddHeader ''SplitSDKMachineIP'' machineIP c1;
          c3 = AddHeader ''SplitSDKMachineName'' (''ip-'' @ dashed machineIP) c2
      in case Client_Post send c3 url data of
           (Some err, req) \<Rightarrow> (Some err, req)
         | (None, req) \<Rightarrow> (None, req))"

section \<open>Timesliced endpoint telemetry (the storage file appended to controllers.go)\<close>

text \<open>
  The per-timeslice record. The two aggregates it holds (\<open>EndpointStatusCodes\<close> and
  \<open>ProxyEndpointLatenciesImpl\<close>) and the wrapped global facade are declared in files that
  are not among the sources; they are type parameters here, and their constructors and
  recording functions are the fields of \<open>ts_deps\<close>.
\<close>

record ('sc, 'lat) timeSliceTelemetry =
  tst_timeSlice :: int
  tst_statusCodes :: 'sc
  tst_latencies :: 'lat

record ('sc, 'lat, 'g) ts_deps =
  newEndpointStatusCodes :: 'sc
  newProxyEndpointLatenciesImpl :: 'lat
  latencies_Record :: "int \<Rightarrow> int \<Rightarrow> 'lat \<Rightarrow> 'lat"
  statusCodes_Incr :: "int \<Rightarrow> int \<Rightarrow> 'sc \<Rightarrow> 'sc"
  facade_Record :: "int \<Rightarrow> int \<Rightarrow> 'g \<Rightarrow> 'g"
  facade_Incr :: "int \<Rightarrow> int \<Rightarrow> 'g \<Rightarrow> 'g"

text \<open>
  \<open>TimeslicedProxyEndpointTelemetryImpl\<close>: the Go map from timeslice to bucket is a finite
  map, \<open>len\<close> of it is the number of keys. \<open>maxTimeSlices\<close> is a Go \<open>int\<close> and may be
  negative. The mutex and the clock are left out; the time of a call is an argument, in
  epoch seconds.
\<close>

record ('sc, 'lat, 'g) TimeslicedImpl =
  ProxyTelemetryFacade :: 'g
  telemetryByTimeSlice :: "(int, ('sc, 'lat) timeSliceTelemetry) fmap"
  timeSliceWidth :: int
  maxTimeSlices :: int

definition NewTimeslicedProxyEndpointTelemetry ::
  "'g \<Rightarrow> int \<Rightarrow> int \<Rightarrow> ('sc, 'lat, 'g) TimeslicedImpl" where
  "NewTimeslicedProxyEndpointTelemetry wrapped width maxSlices =
     \<lparr>ProxyTelemetryFacade = wrapped, telemetryByTimeSlice = fmempty,
      timeSliceWidth = width, maxTimeSlices = maxSlices\<rparr>"

definition len_buckets :: "('sc, 'lat, 'g) TimeslicedImpl \<Rightarrow> int" where
  "len_buckets t = int (fcard (fmdom (telemetryByTimeSlice t)))"

definition newTimeSliceTelemetry ::
  "('sc, 'lat, 'g) ts_deps \<Rightarrow> int \<Rightarrow> ('sc, 'lat) timeSliceTelemetry" where
  "newTimeSliceTelemetry d timeSlice =
     \<lparr>tst_timeSlice = timeSlice, tst_statusCodes = newEndpointStatusCodes d,
      tst_latencies = newProxyEndpointLatenciesImpl d\<rparr>"

text \<open>
  \<open>keyForTimeSlice\<close>: \<open>curr - (curr % width)\<close> with \<open>curr\<close> the Unix time \<open>now\<close>. Go's \<open>%\<close> truncates towards zero
  (\<open>smod\<close>) and panics when the divisor is zero.
\<close>

definition keyForTimeSlice :: "int \<Rightarrow> int \<Rightarrow> panic + int" where
  "keyForTimeSlice now intervalWidthInSeconds =
     (if intervalWidthInSeconds = 0 then Inl IntegerDivideByZero
      else Inr (now - (now smod intervalWidthInSeconds)))"

text \<open>
  \<open>unsafeRollover\<close>: the keys are collected and sorted in ascending order, then the keys of
  the slice \<open>keys[0:(len(keys) - maxTimeSlices)]\<close> are deleted from the map. The slice
  expression panics when its upper bound exceeds the length of \<open>keys\<close>.
\<close>

definition unsafeRollover :: "('sc, 'lat, 'g) TimeslicedImpl \<Rightarrow> panic + ('sc, 'lat, 'g) TimeslicedImpl" where
  "unsafeRollover t =
     (if len_buckets t \<le> maxTimeSlices t then Inr t
      else
        (let keys = sorted_list_of_fset (fmdom (telemetryByTimeSlice t));
             hi = int (length keys) - maxTimeSlices t
         in if hi < 0 \<or> hi > int (length keys) then Inl SliceBoundsOutOfRange
            else Inr (t\<lparr>telemetryByTimeSlice :=
                          fold fmdrop (take (nat hi) keys) (telemetryByTimeSlice t)\<rparr>)))"

text \<open>
  \<open>geHistoricForTS\<close> returns a pointer to the bucket of the timeslice. The model returns
  the bucket's key in its place: every bucket object is created under its own key, so the
  key identifies the object, and the object is still shared with the map exactly when the
  key is still present.
\<close>

definition geHistoricForTS ::
  "('sc, 'lat, 'g) ts_deps \<Rightarrow> ('sc, 'lat, 'g) TimeslicedImpl \<Rightarrow> int \<Rightarrow>
     panic + (('sc, 'lat, 'g) TimeslicedImpl \<times> int)" where
  "geHistoricForTS d t ts =
     (case keyForTimeSlice ts (timeSliceWidth t) of
        Inl p \<Rightarrow> Inl p
      | Inr timeSlice \<Rightarrow>
          (case fmlookup (telemetryByTimeSlice t) timeSlice of
             Some current \<Rightarrow> Inr (t, timeSlice)
           | None \<Rightarrow>
               (let t1 = t\<lparr>telemetryByTimeSlice :=
                             fmupd timeSlice (newTimeSliceTelemetry d timeSlice)
                               (telemetryByTimeSlice t)\<rparr>
                in if len_buckets t1 > maxTimeSlices t1
                   then (case unsafeRollover t1 of
                           Inl p \<Rightarrow> Inl p
                         | Inr t2 \<Rightarrow> Inr (t2, timeSlice))
                   else Inr (t1, timeSlice))))"

text \<open>
  Writing through the returned pointer: the bucket in the map changes when the key is still
  there; a bucket that the rollover has just deleted is written to and then lost.
\<close>

definition write_bucket ::
  "int \<Rightarrow> (('sc, 'lat) timeSliceTelemetry \<Rightarrow> ('sc, 'lat) timeSliceTelemetry) \<Rightarrow>
     ('sc, 'lat, 'g) TimeslicedImpl \<Rightarrow> ('sc, 'lat, 'g) TimeslicedImpl" where
  "write_bucket key f t =
     (case fmlookup (telemetryByTimeSlice t) key of
        None \<Rightarrow> t
      | Some b \<Rightarrow> t\<lparr>telemetryByTimeSlice := fmupd key (f b) (telemetryByTimeSlice t)\<rparr>)"

definition RecordEndpointLatency ::
  "('sc, 'lat, 'g) ts_deps \<Rightarrow> int \<Rightarrow> int \<Rightarrow> int \<Rightarrow> ('sc, 'lat, 'g) TimeslicedImpl \<Rightarrow>
     panic + ('sc, 'lat, 'g) TimeslicedImpl" where
  "RecordEndpointLatency d now ep latency t =
     (let t0 = t\<lparr>ProxyTelemetryFacade := facade_Record d ep latency (ProxyTelemetryFacade t)\<rparr>
      in case geHistoricForTS d t0 now of
           Inl p \<Rightarrow> Inl p
         | Inr (t1, timesliced) \<Rightarrow>
             Inr (write_bucket timesliced
                    (\<lambda>b. b\<lparr>tst_latencies := latencies_Record d ep latency (tst_latencies b)\<rparr>) t1))"

definition IncrEndpointStatus ::
  "('sc, 'lat, 'g) ts_deps \<Rightarrow> int \<Rightarrow> int \<Rightarrow> int \<Rightarrow> ('sc, 'lat, 'g) TimeslicedImpl \<Rightarrow>
     panic + ('sc, 'lat, 'g) TimeslicedImpl" where
  "IncrEndpointStatus d now ep status t =
     (let t0 = t\<lparr>ProxyTelemetryFacade := facade_Incr d ep status (ProxyTelemetryFacade t)\<rparr>
      in case geHistoricForTS d t0 now of
           Inl p \<Rightarrow> Inl p
         | Inr (t1, timesliced) \<Rightarrow>
             Inr (write_bucket timesliced
                    (\<lambda>b. b\<lparr>tst_statusCodes := statusCodes_Incr d ep status (tst_statusCodes b)\<rparr>) t1))"

section \<open>Events post task (unnamed/part_001, package task)\<close>

text \<open>
  A stored event with the metadata of the SDK that produced it; the event body is opaque.
\<close>

record Metadata =
  md_SDKVersion :: string
  md_MachineIP :: string
  md_MachineName :: string

record 'e StoredEvent =
  se_Metadata :: Metadata
  se_Event :: 'e

text \<open>
  \<open>toSend\<close> is a Go map of maps of maps, \<open>[SDKVersion][MachineIP][MachineName]\<close>, to the
  bulk of events. Each level is an association list with the keys in insertion order; Go
  ranges over a map in no fixed order, and the statements below do not depend on the order
  chosen here. A missing key reads as nil, which the task replaces by an empty map or slice.
\<close>

type_synonym 'e byName = "(string \<times> 'e list) list"
type_synonym 'e byIP = "(string \<times> 'e byName) list"
type_synonym 'e toSend = "(string \<times> 'e byIP) list"

definition append_event :: "string \<Rightarrow> string \<Rightarrow> string \<Rightarrow> 'e \<Rightarrow> 'e toSend \<Rightarrow> 'e toSend" where
  "append_event sdk ip mname ev toSend =
     (let forSdk = (case map_of toSend sdk of None \<Rightarrow> [] | Some m \<Rightarrow> m);
          forIp = (case map_of forSdk ip of None \<Rightarrow> [] | Some m \<Rightarrow> m);
          bulk = (case map_of forIp mname of None \<Rightarrow> [] | Some b \<Rightarrow> b)
      in AList.update sdk
           (AList.update ip (AList.update mname (bulk @ [ev]) forIp) forSdk) toSend)"

fun group_events :: "'e StoredEvent list \<Rightarrow> 'e toSend \<Rightarrow> 'e toSend" where
  "group_events [] toSend = toSend"
| "group_events (stored # rest) toSend =
     (if md_SDKVersion (se_Metadata stored) = [] \<or> md_MachineIP (se_Metadata stored) = []
      then group_events rest toSend
      else
        (let sdk = md_SDKVersion (se_Metadata stored);
             ip = md_MachineIP (se_Metadata stored);
             mname = (if md_MachineName (se_Metadata stored) = [] then ''unknown''
                      else md_MachineName (se_Metadata stored))
         in group_events rest (append_event sdk ip mname (se_Event stored) toSend)))"

text \<open>
  One call \<open>recorderAdapter.Post(bulk, s, i, n)\<close>: the bulk and the triple it is posted
  under. The three nested \<open>range\<close> loops make one call per innermost entry.
\<close>

type_synonym 'e post_call = "'e list \<times> string \<times> string \<times> string"

definition calls_byName :: "string \<Rightarrow> string \<Rightarrow> 'e byName \<Rightarrow> 'e post_call list" where
  "calls_byName s i forIp = map (\<lambda>(n, bulk). (bulk, s, i, n)) forIp"

definition calls_byIP :: "string \<Rightarrow> 'e byIP \<Rightarrow> 'e post_call list" where
  "calls_byIP s forSdk = concat (map (\<lambda>(i, forIp). calls_byName s i forIp) forSdk)"

definition post_calls :: "'e toSend \<Rightarrow> 'e post_call list" where
  "post_calls toSend = concat (map (\<lambda>(s, forSdk). calls_byIP s forSdk) toSend)"

datatype task_log = LogPopFailed error | LogPostFailed error

text \<open>
  \<open>taskPostEvents\<close>: \<open>popN\<close> is what \<open>storageAdapter.PopN(bulkSize)\<close> returned and \<open>post\<close>
  the answer of the recorder to a call. The result is the list of \<open>Post\<close> calls made and
  the errors logged.
\<close>

definition taskPostEvents ::
  "('e post_call \<Rightarrow> error option) \<Rightarrow> error + 'e StoredEvent list \<Rightarrow> 'e post_call list \<times> task_log list" where
  "taskPostEvents post popN =
     (case popN of
        Inl err \<Rightarrow> ([], [LogPopFailed err])
      | Inr storedEvents \<Rightarrow>
          (let calls = post_calls (group_events storedEvents [])
           in (calls,
               concat (map (\<lambda>c. case post c of None \<Rightarrow> [] | Some err \<Rightarrow> [LogPostFailed err])
                         calls))))"

text \<open>
  The triple an event is posted under: none when its SDK version or machine IP is empty,
  otherwise the version, the IP and the machine name with \<open>unknown\<close> for an empty name.
\<close>

definition posted_key :: "'e StoredEvent \<Rightarrow> (string \<times> string \<times> string) option" where
  "posted_key e =
     (if md_SDKVersion (se_Metadata e) = [] \<or> md_MachineIP (se_Metadata e) = [] then None
      else Some (md_SDKVersion (se_Metadata e), md_MachineIP (se_Metadata e),
                 if md_MachineName (se_Metadata e) = [] then ''unknown''
                 else md_MachineName (se_Metadata e)))"

text \<open>Reading the nested map at a triple, and the nested map having each key once.\<close>

definition lookup3 :: "'e toSend \<Rightarrow> string \<times> string \<times> string \<Rightarrow> 'e list option" where
  "lookup3 toSend k =
     (case k of (s, i, n) \<Rightarrow>
        (case map_of toSend s of
           None \<Rightarrow> None
         | Some forSdk \<Rightarrow>
             (case map_of forSdk i of None \<Rightarrow> None | Some forIp \<Rightarrow> map_of forIp n)))"

definition keys_once :: "'e toSend \<Rightarrow> bool" where
  "keys_once toSend =
     (distinct (map fst toSend) \<and>
      (\<forall>s forSdk. map_of toSend s = Some forSdk \<longrightarrow>
         distinct (map fst forSdk) \<and>
         (\<forall>i forIp. map_of forSdk i = Some forIp \<longrightarrow> distinct (map fst forIp))))"

text \<open>The events of a batch that are posted under a triple, in batch order.\<close>

definition bulk_for :: "'e StoredEvent list \<Rightarrow> string \<times> string \<times> string \<Rightarrow> 'e list" where
  "bulk_for stored k = map se_Event (filter (\<lambda>e. posted_key e = Some k) stored)"

section \<open>Impressions recorder (splitio/producer/worker/impression.go)\<close>

text \<open>
  The toolkit's \<open>WithAttempts(attempts, main)\<close>: \<open>main\<close> is called until it returns nil or
  the attempts are used up, and the last error is returned. Any wait between attempts is
  not modelled.
\<close>

fun attempts_loop ::
  "nat \<Rightarrow> ('s \<Rightarrow> error option \<times> 's) \<Rightarrow> error option \<Rightarrow> 's \<Rightarrow> error option \<times> 's" where
  "attempts_loop 0 main err s = (err, s)"
| "attempts_loop (Suc remaining) main err s =
     (case main s of
        (None, s') \<Rightarrow> (None, s')
      | (Some e, s') \<Rightarrow> attempts_loop remaining main (Some e) s')"

definition WithAttempts :: "nat \<Rightarrow> ('s \<Rightarrow> error option \<times> 's) \<Rightarrow> 's \<Rightarrow> error option \<times> 's" where
  "WithAttempts attempts main s = attempts_loop attempts main None s"

text \<open>The runtime telemetry the recorder writes for the impression sync.\<close>

datatype telemetry_event =
    RecordSyncError int
  | RecordSyncLatency
  | RecordSuccessfulSync

datatype operation =
    SplitsOperation | SegmentsOperation | ImpressionsOperation | EventsOperation
  | TelemetryOperation

record 'imp StoredImpression =
  si_Impression :: 'imp
  si_Metadata :: Metadata

record ImpressionBulk =
  ib_Data :: string
  ib_SdkVersion :: string
  ib_MachineIP :: string
  ib_MachineName :: string

text \<open>
  What the recorder works with and what is not among the sources: the operation gate of the
  task package (\<open>IsOperationRunning\<close>, \<open>RequestOperation\<close>, \<open>FinishOperation\<close> on a gate
  state \<open>'g\<close>), the impression storage (\<open>PopNWithMetadata\<close>, \<open>Count\<close> on \<open>'q\<close>), the
  impression manager (\<open>ProcessImpressions\<close> on \<open>'m\<close>), the grouping helpers \<open>wrapData\<close>,
  \<open>wrapDataForListener\<close>, \<open>toImpressionsDTO\<close> and \<open>wrapDTOListener\<close>, the upstream
  recorder (\<open>Record\<close>; its answer may depend on how many calls came before), JSON encoding,
  the listener queue, the execution mode, and the constants \<open>splitio.DefaultSize\<close> and
  \<open>splitio.MaxSizeToFlush\<close>. The Go maps keyed by metadata are association lists.
\<close>

record ('g, 'q, 'm, 'imp, 'lsi, 'feat, 'lfeat, 'dto, 'lst, 'lq) imp_deps =
  d_IsOperationRunning :: "operation \<Rightarrow> 'g \<Rightarrow> bool"
  d_RequestOperation :: "operation \<Rightarrow> 'g \<Rightarrow> bool \<times> 'g"
  d_FinishOperation :: "operation \<Rightarrow> 'g \<Rightarrow> 'g"
  d_PopNWithMetadata :: "int \<Rightarrow> 'q \<Rightarrow> (error + 'imp StoredImpression list) \<times> 'q"
  d_Count :: "'q \<Rightarrow> int"
  d_ProcessImpressions :: "'imp list \<Rightarrow> 'm \<Rightarrow> ('imp list \<times> 'lsi list) \<times> 'm"
  d_wrapData :: "'imp list \<Rightarrow> (Metadata \<times> 'feat) list \<Rightarrow> Metadata \<Rightarrow> (Metadata \<times> 'feat) list"
  d_wrapDataForListener ::
    "'lsi list \<Rightarrow> (Metadata \<times> 'lfeat) list \<Rightarrow> Metadata \<Rightarrow> (Metadata \<times> 'lfeat) list"
  d_toImpressionsDTO :: "'feat \<Rightarrow> 'dto list \<times> error option"
  d_wrapDTOListener :: "(Metadata \<times> 'lfeat) list \<Rightarrow> (Metadata \<times> 'lst list) list"
  d_Record :: "nat \<Rightarrow> 'dto list \<Rightarrow> Metadata \<Rightarrow> (string \<times> string) list \<Rightarrow> error option"
  d_jsonMarshal :: "'lst list \<Rightarrow> error + string"
  d_QueueImpressionsForListener :: "ImpressionBulk \<Rightarrow> 'lq \<Rightarrow> error option \<times> 'lq"
  d_ProducerMode :: bool
  d_DefaultSize :: int
  d_MaxSizeToFlush :: int

text \<open>
  The state the recorder reads and writes: the gate, the storage, the manager, the \<open>Record\<close>
  calls made so far, what \<open>StoreDataFlushed\<close> was told, the telemetry written, the listener
  queue and the error lines logged. The recorder's own fields \<open>mode\<close> and
  \<open>impressionListenerEnabled\<close> are \<open>w_mode\<close> and \<open>w_listenerEnabled\<close>.
\<close>

record ('g, 'q, 'm, 'dto, 'lq) world =
  w_gate :: 'g
  w_storage :: 'q
  w_manager :: 'm
  w_recorded :: "('dto list \<times> Metadata \<times> (string \<times> string) list) list"
  w_flushed :: "(nat \<times> int) list"
  w_telemetry :: "telemetry_event list"
  w_listener :: 'lq
  w_errors :: "string list"
  w_mode :: string
  w_listenerEnabled :: bool

type_synonym ('g, 'q, 'm, 'dto, 'lq) W = "('g, 'q, 'm, 'dto, 'lq) world"
type_synonym ('g, 'q, 'm, 'imp, 'lsi, 'feat, 'lfeat, 'dto, 'lst, 'lq) D =
  "('g, 'q, 'm, 'imp, 'lsi, 'feat, 'lfeat, 'dto, 'lst, 'lq) imp_deps"

definition wrapDTO ::
  "('g, 'q, 'm, 'imp, 'lsi, 'feat, 'lfeat, 'dto, 'lst, 'lq) D \<Rightarrow> (Metadata \<times> 'feat) list \<Rightarrow>
     (Metadata \<times> 'dto list) list \<times> string list" where
  "wrapDTO d collectedData =
     (map (\<lambda>(metadata, impsForMetadata). (metadata, fst (d_toImpressionsDTO d impsForMetadata)))
        collectedData,
      concat (map (\<lambda>(metadata, impsForMetadata).
                case snd (d_toImpressionsDTO d impsForMetadata) of
                  None \<Rightarrow> []
                | Some err \<Rightarrow> [''Unable to write impressions for metadata''])
              collectedData))"

fun fetch_loop ::
  "('g, 'q, 'm, 'imp, 'lsi, 'feat, 'lfeat, 'dto, 'lst, 'lq) D \<Rightarrow> 'imp StoredImpression list \<Rightarrow>
     (Metadata \<times> 'feat) list \<times> (Metadata \<times> 'lfeat) list \<times> 'm \<Rightarrow>
     (Metadata \<times> 'feat) list \<times> (Metadata \<times> 'lfeat) list \<times> 'm" where
  "fetch_loop d [] acc = acc"
| "fetch_loop d (stored # rest) (forLog, forListener, m) =
     (case d_ProcessImpressions d [si_Impression stored] m of
        ((toSend, forL), m') \<Rightarrow>
          fetch_loop d rest
            (d_wrapData d toSend forLog (si_Metadata stored),
             d_wrapDataForListener d forL forListener (si_Metadata stored), m'))"

definition fetch ::
  "('g, 'q, 'm, 'imp, 'lsi, 'feat, 'lfeat, 'dto, 'lst, 'lq) D \<Rightarrow> int \<Rightarrow> ('g, 'q, 'm, 'dto, 'lq) W \<Rightarrow>
     (error + (Metadata \<times> 'dto list) list \<times> (Metadata \<times> 'lst list) list) \<times>
     ('g, 'q, 'm, 'dto, 'lq) W" where
  "fetch d bulkSize w =
     (case d_PopNWithMetadata d bulkSize (w_storage w) of
        (Inl err, q') \<Rightarrow>
          (Inl err,
           w\<lparr>w_storage := q',
             w_errors := w_errors w @
               [''(Task) Post Impressions fails fetching impressions from storage'']\<rparr>)
      | (Inr storedImpressions, q') \<Rightarrow>
          (case fetch_loop d storedImpressions ([], [], w_manager w) of
             (forLog, forListener, m') \<Rightarrow>
               (Inr (fst (wrapDTO d forLog), d_wrapDTOListener d forListener),
                w\<lparr>w_storage := q', w_manager := m',
                  w_errors := w_errors w @ snd (wrapDTO d forLog)\<rparr>)))"

text \<open>
  The callback handed to \<open>WithAttempts\<close>: it calls \<open>Record\<close>, logs a failure, and returns
  nil whatever \<open>Record\<close> returned.
\<close>

definition record_callback ::
  "('g, 'q, 'm, 'imp, 'lsi, 'feat, 'lfeat, 'dto, 'lst, 'lq) D \<Rightarrow> 'dto list \<Rightarrow> Metadata \<Rightarrow>
     ('g, 'q, 'm, 'dto, 'lq) W \<Rightarrow> error option \<times> ('g, 'q, 'm, 'dto, 'lq) W" where
  "record_callback d impressions metadata w =
     (let extraHeaders = [(''SplitSDKImpressionsMode'', w_mode w)];
          err = d_Record d (length (w_recorded w)) impressions metadata extraHeaders;
          w1 = w\<lparr>w_recorded := w_recorded w @ [(impressions, metadata, extraHeaders)]\<rparr>;
          w2 = (if err \<noteq> None then w1\<lparr>w_errors := w_errors w1 @ [''Error posting impressions'']\<rparr>
                else w1)
      in (None, w2))"

fun recordImpressions ::
  "('g, 'q, 'm, 'imp, 'lsi, 'feat, 'lfeat, 'dto, 'lst, 'lq) D \<Rightarrow> (Metadata \<times> 'dto list) list \<Rightarrow>
     ('g, 'q, 'm, 'dto, 'lq) W \<Rightarrow> error option \<times> ('g, 'q, 'm, 'dto, 'lq) W" where
  "recordImpressions d [] w = (None, w)"
| "recordImpressions d ((metadata, impressions) # rest) w =
     (let w0 = (if d_ProducerMode d
                then w\<lparr>w_flushed := w_flushed w @ [(length impressions, d_Count d (w_storage w))]\<rparr>
                else w)
      in case WithAttempts 3 (record_callback d impressions metadata) w0 of
           (Some err, w1) \<Rightarrow>
             (case err of
                HTTPError code msg \<Rightarrow>
                  (Some err, w1\<lparr>w_telemetry := w_telemetry w1 @ [RecordSyncError code]\<rparr>)
              | _ \<Rightarrow> (Some err, w1))
         | (None, w1) \<Rightarrow>
             recordImpressions d rest
               (w1\<lparr>w_telemetry := w_telemetry w1 @ [RecordSyncLatency, RecordSuccessfulSync]\<rparr>))"

fun sendDataToListener ::
  "('g, 'q, 'm, 'imp, 'lsi, 'feat, 'lfeat, 'dto, 'lst, 'lq) D \<Rightarrow> (Metadata \<times> 'lst list) list \<Rightarrow>
     ('g, 'q, 'm, 'dto, 'lq) W \<Rightarrow> ('g, 'q, 'm, 'dto, 'lq) W" where
  "sendDataToListener d [] w = w"
| "sendDataToListener d ((metadata, impressions) # rest) w =
     (case d_jsonMarshal d impressions of
        Inl err \<Rightarrow>
          sendDataToListener d rest
            (w\<lparr>w_errors := w_errors w @ [''JSON encoding failed for the following impressions'']\<rparr>)
      | Inr rawImpressions \<Rightarrow>
          (case d_QueueImpressionsForListener d
                  \<lparr>ib_Data = rawImpressions, ib_SdkVersion = md_SDKVersion metadata,
                   ib_MachineIP = md_MachineIP metadata, ib_MachineName = md_MachineName metadata\<rparr>
                  (w_listener w) of
             (None, lq') \<Rightarrow> sendDataToListener d rest (w\<lparr>w_listener := lq'\<rparr>)
           | (Some err, lq') \<Rightarrow>
               sendDataToListener d rest
                 (w\<lparr>w_listener := lq', w_errors := w_errors w @ [''listener queue error'']\<rparr>)))"

definition synchronizeImpressions ::
  "('g, 'q, 'm, 'imp, 'lsi, 'feat, 'lfeat, 'dto, 'lst, 'lq) D \<Rightarrow> int \<Rightarrow> ('g, 'q, 'm, 'dto, 'lq) W \<Rightarrow>
     error option \<times> ('g, 'q, 'm, 'dto, 'lq) W" where
  "synchronizeImpressions d bulkSize w =
     (case fetch d bulkSize w of
        (Inl err, w1) \<Rightarrow> (Some err, w1)
      | (Inr (impressionsToSend, impressionsForListener), w1) \<Rightarrow>
          (case recordImpressions d impressionsToSend w1 of
             (Some err, w2) \<Rightarrow> (Some err, w2)
           | (None, w2) \<Rightarrow>
               (None, if w_listenerEnabled w2 then sendDataToListener d impressionsForListener w2
                      else w2)))"

definition SynchronizeImpressions ::
  "('g, 'q, 'm, 'imp, 'lsi, 'feat, 'lfeat, 'dto, 'lst, 'lq) D \<Rightarrow> int \<Rightarrow> ('g, 'q, 'm, 'dto, 'lq) W \<Rightarrow>
     error option \<times> ('g, 'q, 'm, 'dto, 'lq) W" where
  "SynchronizeImpressions d bulkSize w =
     (if d_IsOperationRunning d ImpressionsOperation (w_gate w) then (None, w)
      else synchronizeImpressions d bulkSize w)"

text \<open>
  The loop of \<open>FlushImpressions\<close>. Nothing in the function bounds the number of rounds
  when \<open>DefaultSize\<close> is not positive, so the loop is a partial function: \<open>None\<close> is the
  loop that never ends.
\<close>

partial_function (option) flush_loop ::
  "('g, 'q, 'm, 'imp, 'lsi, 'feat, 'lfeat, 'dto, 'lst, 'lq) D \<Rightarrow> int \<Rightarrow> ('g, 'q, 'm, 'dto, 'lq) W \<Rightarrow>
     (error option \<times> ('g, 'q, 'm, 'dto, 'lq) W) option" where
  "flush_loop d elementsToFlush w =
     (if elementsToFlush > 0 \<and> d_Count d (w_storage w) > 0
      then (let maxSize = (if elementsToFlush < d_DefaultSize d then elementsToFlush
                           else d_DefaultSize d)
            in case synchronizeImpressions d maxSize w of
                 (Some err, w') \<Rightarrow> Some (Some err, w')
               | (None, w') \<Rightarrow> flush_loop d (elementsToFlush - d_DefaultSize d) w')
      else Some (None, w))"

definition flush_busy :: error where
  "flush_busy =
     ErrorString ''Cannot execute flush. Another operation is performing operations on Impressions''"

text \<open>
  \<open>FlushImpressions\<close>: the deferred \<open>FinishOperation\<close> runs on every return of the branch
  that acquired the operation.
\<close>

definition FlushImpressions ::
  "('g, 'q, 'm, 'imp, 'lsi, 'feat, 'lfeat, 'dto, 'lst, 'lq) D \<Rightarrow> int \<Rightarrow> ('g, 'q, 'm, 'dto, 'lq) W \<Rightarrow>
     (error option \<times> ('g, 'q, 'm, 'dto, 'lq) W) option" where
  "FlushImpressions d bulkSize w =
     (case d_RequestOperation d ImpressionsOperation (w_gate w) of
        (False, g') \<Rightarrow> Some (Some flush_busy, w\<lparr>w_gate := g'\<rparr>)
      | (True, g') \<Rightarrow>
          (let elementsToFlush = (if bulkSize \<noteq> 0 then bulkSize else d_MaxSizeToFlush d)
           in case flush_loop d elementsToFlush (w\<lparr>w_gate := g'\<rparr>) of
                None \<Rightarrow> None
              | Some (err, w') \<Rightarrow>
                  Some (err, w'\<lparr>w_gate := d_FinishOperation d ImpressionsOperation (w_gate w')\<rparr>)))"

text \<open>
  Modelled from the spec: the operation gate is a table of flags keyed by operation kind.
  \<open>isRunning\<close> reads the flag; \<open>request\<close> takes the operation when its flag is clear and
  says whether it did; \<open>finish\<close> clears the flag.
\<close>

type_synonym gate = "operation \<Rightarrow> bool"

definition IsOperationRunning :: "operation \<Rightarrow> gate \<Rightarrow> bool" where
  "IsOperationRunning kind g = g kind"

definition RequestOperation :: "operation \<Rightarrow> gate \<Rightarrow> bool \<times> gate" where
  "RequestOperation kind g = (if g kind then (False, g) else (True, g(kind := True)))"

definition FinishOperation :: "operation \<Rightarrow> gate \<Rightarrow> gate" where
  "FinishOperation kind g = g(kind := False)"

definition uses_gate :: "(gate, 'q, 'm, 'imp, 'lsi, 'feat, 'lfeat, 'dto, 'lst, 'lq) D \<Rightarrow> bool" where
  "uses_gate d =
     (d_IsOperationRunning d = IsOperationRunning \<and> d_RequestOperation d = RequestOperation \<and>
      d_FinishOperation d = FinishOperation)"

section \<open>Sample data for the closed checks\<close>

text \<open>
  Splits and storages for the scenarios: active splits of traffic type \<open>user\<close>, a builder
  that turns each removed name into an archived split (the change number it stamps on them
  is the sample's own choice), the cache of the spec with that builder, and the storages the
  scenarios reach from a new one through \<open>Update\<close>.
\<close>

definition sample_split :: "string \<Rightarrow> int \<Rightarrow> SplitDTO" where
  "sample_split name cn =
     \<lparr>split_Name = name, split_TrafficTypeName = ''user'', split_Status = ''ACTIVE'',
      split_ChangeNumber = cn, split_Body = ''{}''\<rparr>"

definition sample_archived :: "(string \<times> string) list \<Rightarrow> SplitDTO list" where
  "sample_archived removed =
     map (\<lambda>(name, tt). \<lparr>split_Name = name, split_TrafficTypeName = tt,
                          split_Status = ''ARCHIVED'', split_ChangeNumber = 0,
                          split_Body = ''{}''\<rparr>) removed"

definition sample_cache :: "nat \<Rightarrow> recipe list optimized_ops" where
  "sample_cache retention = spec_cache retention sample_archived"

text \<open>S1: a new storage, then \<open>update([A@10, B@10], [], 10)\<close>.\<close>

definition storage_S1 :: "recipe list ProxySplitStorageImpl" where
  "storage_S1 =
     Update (sample_cache 1000) [sample_split ''A'' 10, sample_split ''B'' 10] [] 10
       (NewProxySplitStorage (sample_cache 1000))"


text \<open>
  S6: a cache that retains two recipes, after updates at change numbers 1, 2 and 3; the
  recipe of change number 1 has been evicted.
\<close>

definition storage_S6 :: "recipe list ProxySplitStorageImpl" where
  "storage_S6 =
     Update (sample_cache 2) [sample_split ''C'' 3] [] 3
       (Update (sample_cache 2) [sample_split ''B'' 2] [] 2
          (Update (sample_cache 2) [sample_split ''A'' 1] [] 1
             (NewProxySplitStorage (sample_cache 2))))"


text \<open>
  An SDK controller around the two-recipe cache: the upstream answers every fetch, and
  \<open>RegisterOlderCn\<close> files the fetched \<open>since\<close> as one more recipe.
\<close>

definition deps0 :: "(recipe list, unit) sdk_deps" where
  "deps0 =
     \<lparr>dep_Fetch = (\<lambda>since noCache. Inr \<lparr>dto_Since = since, dto_Till = 3, dto_Splits = []\<rparr>),
      dep_RegisterOlderCn =
        (\<lambda>payload p. p\<lparr>psi_recipes :=
           \<lparr>rcp_cn = dto_Since payload, rcp_updated = [], rcp_removed = []\<rparr> # psi_recipes p\<rparr>),
      dep_optimized = sample_cache 2,
      dep_SegmentChangesSince = (\<lambda>name since. Inl (ErrorString ''not found''))\<rparr>"

definition ts_deps0 :: "((int \<times> int) list, (int \<times> int) list, nat) ts_deps" where
  "ts_deps0 =
     \<lparr>newEndpointStatusCodes = [], newProxyEndpointLatenciesImpl = [],
      latencies_Record = (\<lambda>ep latency l. l @ [(ep, latency)]),
      statusCodes_Incr = (\<lambda>ep status s. s @ [(ep, status)]),
      facade_Record = (\<lambda>ep latency g. Suc g),
      facade_Incr = (\<lambda>ep status g. Suc g)\<rparr>"

definition slices3 :: "((int \<times> int) list, (int \<times> int) list, nat) TimeslicedImpl" where
  "slices3 =
     \<lparr>ProxyTelemetryFacade = 0,
      telemetryByTimeSlice =
        fmupd 180 (newTimeSliceTelemetry ts_deps0 180)
          (fmupd 120 (newTimeSliceTelemetry ts_deps0 120)
            (fmupd 60 (newTimeSliceTelemetry ts_deps0 60) fmempty)),
      timeSliceWidth = 60, maxTimeSlices = 3\<rparr>"

definition slices4 :: "((int \<times> int) list, (int \<times> int) list, nat) TimeslicedImpl" where
  "slices4 =
     slices3\<lparr>telemetryByTimeSlice :=
       fmupd 240 (newTimeSliceTelemetry ts_deps0 240) (telemetryByTimeSlice slices3)\<rparr>"

definition stored4 :: "nat StoredEvent list" where
  "stored4 =
     [\<lparr>se_Metadata = \<lparr>md_SDKVersion = ''go-1'', md_MachineIP = ''1.1.1.1'', md_MachineName = []\<rparr>,
       se_Event = 1\<rparr>,
      \<lparr>se_Metadata = \<lparr>md_SDKVersion = [], md_MachineIP = ''1.1.1.1'', md_MachineName = ''host''\<rparr>,
       se_Event = 2\<rparr>,
      \<lparr>se_Metadata = \<lparr>md_SDKVersion = ''go-1'', md_MachineIP = ''1.1.1.1'',
                       md_MachineName = ''unknown''\<rparr>,
       se_Event = 3\<rparr>,
      \<lparr>se_Metadata = \<lparr>md_SDKVersion = ''go-1'', md_MachineIP = ''2.2.2.2'', md_MachineName = ''host''\<rparr>,
       se_Event = 4\<rparr>]"

text \<open>
  A small instance of the recorder's surroundings: a list as the impression queue, a
  manager that forwards everything, one bulk per metadata, and an upstream whose answer to
  the n-th \<open>Record\<close> call is \<open>upstream n\<close>.
\<close>

definition sample_deps ::
  "(nat \<Rightarrow> error option) \<Rightarrow>
     (gate, nat StoredImpression list, unit, nat, nat, nat list, nat list, nat, nat,
      ImpressionBulk list) imp_deps" where
  "sample_deps upstream =
     \<lparr>d_IsOperationRunning = IsOperationRunning,
      d_RequestOperation = RequestOperation,
      d_FinishOperation = FinishOperation,
      d_PopNWithMetadata = (\<lambda>n q. (Inr (take (nat n) q), drop (nat n) q)),
      d_Count = (\<lambda>q. int (length q)),
      d_ProcessImpressions = (\<lambda>imps m. ((imps, imps), m)),
      d_wrapData = (\<lambda>imps acc md.
         AList.update md ((case map_of acc md of None \<Rightarrow> [] | Some f \<Rightarrow> f) @ imps) acc),
      d_wrapDataForListener = (\<lambda>imps acc md.
         AList.update md ((case map_of acc md of None \<Rightarrow> [] | Some f \<Rightarrow> f) @ imps) acc),
      d_toImpressionsDTO = (\<lambda>f. (f, None)),
      d_wrapDTOListener = (\<lambda>acc. acc),
      d_Record = (\<lambda>n imps md hdrs. upstream n),
      d_jsonMarshal = (\<lambda>l. Inr ''[]''),
      d_QueueImpressionsForListener = (\<lambda>b q. (None, q @ [b])),
      d_ProducerMode = False,
      d_DefaultSize = 5000,
      d_MaxSizeToFlush = 25000\<rparr>"

definition md0 :: Metadata where
  "md0 = \<lparr>md_SDKVersion = ''go-1'', md_MachineIP = ''1.1.1.1'', md_MachineName = ''host''\<rparr>"

definition sample_world ::
  "gate \<Rightarrow> nat StoredImpression list \<Rightarrow>
     (gate, nat StoredImpression list, unit, nat, ImpressionBulk list) world" where
  "sample_world g q =
     \<lparr>w_gate = g, w_storage = q, w_manager = (), w_recorded = [], w_flushed = [],
      w_telemetry = [], w_listener = [], w_errors = [], w_mode = ''OPTIMIZED'',
      w_listenerEnabled = False\<rparr>"


definition key_added :: "int \<Rightarrow> SegmentKey \<Rightarrow> bool" where
  "key_added since k = (since < skey_ChangeNumber k \<and> \<not> skey_Removed k)"

definition key_removed :: "int \<Rightarrow> SegmentKey \<Rightarrow> bool" where
  "key_removed since k = (since < skey_ChangeNumber k \<and> skey_Removed k)"

definition key_counted :: "int \<Rightarrow> SegmentKey \<Rightarrow> bool" where
  "key_counted since k = (since < skey_ChangeNumber k \<and> (0 < since \<or> \<not> skey_Removed k))"

text \<open>The largest of a start value and a finite set of change numbers.\<close>

definition upper :: "int \<Rightarrow> int set \<Rightarrow> int" where
  "upper t A = Max (insert t A)"

chapter \<open>Properties\<close>

section \<open>Stats storage: initialisation guard\<close>

lemma run_calls_uninitialised:
  "CallInitialize \<notin> set cs \<Longrightarrow> \<not> storageInitialized st \<Longrightarrow> run_calls cs st = Inr st"
proof (induction cs)
  case Nil
  then show ?case by simp
next
  case (Cons c cs)
  then show ?case
    by (cases c) (auto simp: SaveCounter_def SaveLatency_def)
qed

lemma run_call_ready:
  "stats_ready st \<Longrightarrow> \<exists>st'. run_call c st = Inr st' \<and> stats_ready st'"
  by (cases c) (auto simp: stats_ready_def SaveCounter_def SaveLatency_def Initialize_def)

lemma run_calls_ready:
  "stats_ready st \<Longrightarrow> \<exists>st'. run_calls cs st = Inr st' \<and> stats_ready st'"
proof (induction cs arbitrary: st)
  case Nil
  then show ?case by simp
next
  case (Cons c cs)
  from run_call_ready [OF Cons.prems] obtain st1
    where st1: "run_call c st = Inr st1" "stats_ready st1" by blast
  from Cons.IH [OF st1(2)] st1(1) show ?case by simp
qed

lemma run_calls_initialised:
  assumes "CallInitialize \<in> set cs" and "\<not> storageInitialized st"
  shows "\<exists>st'. run_calls cs st = Inr st' \<and> stats_ready st'"
  using assms
proof (induction cs)
  case Nil
  then show ?case by simp
next
  case (Cons c cs)
  show ?case
  proof (cases "c = CallInitialize")
    case True
    have "stats_ready (Initialize st)"
      by (simp add: stats_ready_def Initialize_def)
    from run_calls_ready [OF this] True show ?thesis by simp
  next
    case False
    with Cons.prems have mem: "CallInitialize \<in> set cs" by simp
    from False Cons.prems(2) have "run_call c st = Inr st"
      by (cases c) (auto simp: SaveCounter_def SaveLatency_def)
    with Cons.IH [OF mem Cons.prems(2)] show ?thesis by simp
  qed
qed

text \<open>
  C10. Whatever calls came before, as long as \<open>Initialize\<close> was not among them, \<open>SaveCounter\<close>
  and \<open>SaveLatency\<close> return the storage-not-initialized error and leave every package
  variable as it was. Once \<open>Initialize\<close> has been called, neither call panics, both return
  nil, and the value is recorded under the name: the counter grows by the value (64-bit
  wrap-around), the latency list is extended and cut to its last 500 entries, and the
  entries of other names stay as they were.
\<close>

theorem stats_save_contract:
  "(CallInitialize \<notin> set cs \<longrightarrow>
      run_calls cs initial_stats = Inr initial_stats \<and>
      SaveCounter name v initial_stats = Inr (Some notStorageInitialiazedError, initial_stats) \<and>
      SaveLatency name ls initial_stats = Inr (Some notStorageInitialiazedError, initial_stats)) \<and>
   (CallInitialize \<in> set cs \<longrightarrow>
      (\<exists>st c l c' l'.
         run_calls cs initial_stats = Inr st \<and>
         countersStorage st = Some c \<and> latenciesStorage st = Some l \<and>
         SaveCounter name v st = Inr (None, st\<lparr>countersStorage := Some c'\<rparr>) \<and>
         c' name = Some (counter_of c name + v) \<and>
         (\<forall>other. other \<noteq> name \<longrightarrow> c' other = c other) \<and>
         SaveLatency name ls st = Inr (None, st\<lparr>latenciesStorage := Some l'\<rparr>) \<and>
         l' name = Some (drop (length (latencies_of l name @ ls) - 500) (latencies_of l name @ ls)) \<and>
         (\<forall>other. other \<noteq> name \<longrightarrow> l' other = l other)))"
proof (intro conjI impI)
  assume "CallInitialize \<notin> set cs"
  then show "run_calls cs initial_stats = Inr initial_stats"
    by (rule run_calls_uninitialised) (simp add: initial_stats_def)
next
  show "SaveCounter name v initial_stats = Inr (Some notStorageInitialiazedError, initial_stats)"
    by (simp add: SaveCounter_def initial_stats_def)
next
  show "SaveLatency name ls initial_stats = Inr (Some notStorageInitialiazedError, initial_stats)"
    by (simp add: SaveLatency_def initial_stats_def)
next
  assume "CallInitialize \<in> set cs"
  moreover have "\<not> storageInitialized initial_stats"
    by (simp add: initial_stats_def)
  ultimately obtain st where st: "run_calls cs initial_stats = Inr st" "stats_ready st"
    using run_calls_initialised by blast
  then obtain c l where cl: "countersStorage st = Some c" "latenciesStorage st = Some l"
    and init: "storageInitialized st"
    by (auto simp: stats_ready_def)
  let ?c' = "CounterStorage_Add c name v" and ?l' = "LatencyStorage_Add l name ls"
  have "SaveCounter name v st = Inr (None, st\<lparr>countersStorage := Some ?c'\<rparr>)"
    using cl init by (simp add: SaveCounter_def)
  moreover have "?c' name = Some (counter_of c name + v)"
    by (simp add: CounterStorage_Add_def)
  moreover have "\<forall>other. other \<noteq> name \<longrightarrow> ?c' other = c other"
    by (simp add: CounterStorage_Add_def)
  moreover have "SaveLatency name ls st = Inr (None, st\<lparr>latenciesStorage := Some ?l'\<rparr>)"
    using cl init by (simp add: SaveLatency_def)
  moreover have "?l' name =
      Some (drop (length (latencies_of l name @ ls) - 500) (latencies_of l name @ ls))"
    by (simp add: LatencyStorage_Add_def lastStoredLatencies_def Let_def)
  moreover have "\<forall>other. other \<noteq> name \<longrightarrow> ?l' other = l other"
    by (simp add: LatencyStorage_Add_def Let_def)
  ultimately show "\<exists>st c l c' l'.
         run_calls cs initial_stats = Inr st \<and>
         countersStorage st = Some c \<and> latenciesStorage st = Some l \<and>
         SaveCounter name v st = Inr (None, st\<lparr>countersStorage := Some c'\<rparr>) \<and>
         c' name = Some (counter_of c name + v) \<and>
         (\<forall>other. other \<noteq> name \<longrightarrow> c' other = c other) \<and>
         SaveLatency name ls st = Inr (None, st\<lparr>latenciesStorage := Some l'\<rparr>) \<and>
         l' name = Some (drop (length (latencies_of l name @ ls) - 500) (latencies_of l name @ ls)) \<and>
         (\<forall>other. other \<noteq> name \<longrightarrow> l' other = l other)"
    using st(1) cl by blast
qed


theorem stats_save_contract_witness:
  "run_calls [CallSaveCounter ''hits'' 1] initial_stats = Inr initial_stats \<and>
   SaveCounter ''hits'' 2 initial_stats = Inr (Some notStorageInitialiazedError, initial_stats) \<and>
   SaveLatency ''hits'' [7] initial_stats = Inr (Some notStorageInitialiazedError, initial_stats) \<and>
   (\<exists>st c' l'.
      run_calls [CallSaveCounter ''hits'' 1, CallInitialize, CallSaveCounter ''hits'' 1]
        initial_stats = Inr st \<and>
      SaveCounter ''hits'' 2 st = Inr (None, st\<lparr>countersStorage := Some c'\<rparr>) \<and>
      c' ''hits'' = Some 3 \<and>
      SaveLatency ''hits'' [7] st = Inr (None, st\<lparr>latenciesStorage := Some l'\<rparr>) \<and>
      l' ''hits'' = Some [7])"
proof -
  let ?before = "[CallSaveCounter ''hits'' 1]"
  let ?after = "[CallSaveCounter ''hits'' 1, CallInitialize, CallSaveCounter ''hits'' 1]"
  let ?st = "\<lparr>storageInitialized = True, countersStorage = Some [''hits'' \<mapsto> 1],
              latenciesStorage = Some Map.empty\<rparr>"
  have run: "run_calls ?after initial_stats = Inr ?st"
    by (simp add: SaveCounter_def Initialize_def initial_stats_def CounterStorage_Add_def
        counter_of_def)
  have nb: "CallInitialize \<notin> set ?before" by simp
  have first: "run_calls ?before initial_stats = Inr initial_stats \<and>
      SaveCounter ''hits'' 2 initial_stats = Inr (Some notStorageInitialiazedError, initial_stats) \<and>
      SaveLatency ''hits'' [7] initial_stats = Inr (Some notStorageInitialiazedError, initial_stats)"
    by (rule stats_save_contract [where cs = ?before and name = "''hits''" and v = 2 and ls = "[7]",
          THEN conjunct1, THEN mp, OF nb])
  have na: "CallInitialize \<in> set ?after" by simp
  note second = stats_save_contract [where cs = ?after and name = "''hits''" and v = 2 and ls = "[7]",
          THEN conjunct2, THEN mp, OF na]
  then obtain st c l c' l' where
    r: "run_calls ?after initial_stats = Inr st"
    and c: "countersStorage st = Some c" and l: "latenciesStorage st = Some l"
    and sc: "SaveCounter ''hits'' 2 st = Inr (None, st\<lparr>countersStorage := Some c'\<rparr>)"
    and c': "c' ''hits'' = Some (counter_of c ''hits'' + 2)"
    and sl: "SaveLatency ''hits'' [7] st = Inr (None, st\<lparr>latenciesStorage := Some l'\<rparr>)"
    and l': "l' ''hits'' =
      Some (drop (length (latencies_of l ''hits'' @ [7]) - 500) (latencies_of l ''hits'' @ [7]))"
    by (elim exE conjE)
  from r run have st: "st = ?st" by simp
  with c have "c = [''hits'' \<mapsto> 1]" by simp
  with c' have c3: "c' ''hits'' = Some 3" by (simp add: counter_of_def)
  from st l have "l = Map.empty" by simp
  with l' have l7: "l' ''hits'' = Some [7]" by (simp add: latencies_of_def)
  from r sc c3 sl l7 have "\<exists>st c' l'.
      run_calls ?after initial_stats = Inr st \<and>
      SaveCounter ''hits'' 2 st = Inr (None, st\<lparr>countersStorage := Some c'\<rparr>) \<and>
      c' ''hits'' = Some 3 \<and>
      SaveLatency ''hits'' [7] st = Inr (None, st\<lparr>latenciesStorage := Some l'\<rparr>) \<and>
      l' ''hits'' = Some [7]"
    by (intro exI conjI)
  with first show ?thesis by (intro conjI) (elim conjE, assumption)+
qed

section \<open>Split changes: since and till\<close>












text \<open>
  The scenarios of the spec on the storage with the spec's cache. S1: a new storage
  answers \<open>-1\<close> with an empty payload and till \<open>-1\<close>; after the first update \<open>-1\<close> gets
  both splits with till 10, and \<open>since = 10\<close> gets an empty payload with till 10. S2: once
  A has been added at 10 and removed at 20, \<open>since = 5\<close> gets A as an archived split and
  till 20. S6: with the recipe of change number 1 evicted, \<open>since = 1\<close> is not cached.
\<close>

lemma scenario_S1:
  "ChangesSince (sample_cache 1000) (NewProxySplitStorage (sample_cache 1000)) (- 1) =
     Inr (Inr \<lparr>dto_Since = - 1, dto_Till = - 1, dto_Splits = []\<rparr>)"
  "ChangesSince (sample_cache 1000) storage_S1 (- 1) =
     Inr (Inr \<lparr>dto_Since = - 1, dto_Till = 10,
               dto_Splits = [sample_split ''A'' 10, sample_split ''B'' 10]\<rparr>)"
  "ChangesSince (sample_cache 1000) storage_S1 10 =
     Inr (Inr \<lparr>dto_Since = 10, dto_Till = 10, dto_Splits = []\<rparr>)"
  by code_simp+


lemma scenario_S6:
  "psi_recipes storage_S6 =
     [\<lparr>rcp_cn = 2, rcp_updated = [(''B'', ''user'')], rcp_removed = []\<rparr>,
      \<lparr>rcp_cn = 3, rcp_updated = [(''C'', ''user'')], rcp_removed = []\<rparr>]"
  "ChangesSince (sample_cache 2) storage_S6 1 = Inr (Inl ErrSummaryNotCached)"
  by code_simp+





section \<open>Segment changes served from the store\<close>

lemma upper_empty: "upper t {} = t"
  by (simp add: upper_def)

lemma upper_insert:
  assumes "finite A"
  shows "upper t (insert c A) = upper (if t < c then c else t) A"
proof -
  have "(if t < c then c else t) = max t c" by (simp add: max_def)
  moreover have "Max (insert (max t c) A) = Max (insert t (insert c A))"
    using assms by (cases "A = {}") (auto simp: max.assoc max.commute max.left_commute)
  ultimately show ?thesis by (simp only: upper_def)
qed

lemma segments_loop_eq:
  "segments_loop since keys (a, r, t) =
     (a @ map skey_Name (filter (key_added since) keys),
      r @ (if 0 < since then map skey_Name (filter (key_removed since) keys) else []),
      upper t (skey_ChangeNumber ` set (filter (key_counted since) keys)))"
proof (induction keys arbitrary: a r t)
  case Nil
  then show ?case by (simp add: upper_empty)
next
  case (Cons k keys)
  have fin: "finite (skey_ChangeNumber ` {x \<in> set keys. key_counted since x})" by simp
  note ui = upper_insert [OF fin]
  note at_k = key_added_def [of since k] key_removed_def [of since k] key_counted_def [of since k]
  show ?case
  proof (cases "since < skey_ChangeNumber k")
    case False
    then show ?thesis using Cons.IH by (simp add: at_k)
  next
    case gt: True
    show ?thesis
    proof (cases "skey_Removed k")
      case True
      with gt show ?thesis using Cons.IH by (simp add: at_k ui)
    next
      case False
      with gt show ?thesis using Cons.IH by (simp add: at_k ui)
    qed
  qed
qed

text \<open>
  C4, as the code has it. For a stored segment, \<open>added\<close> holds the keys of the deltas newer
  than \<open>since\<close> that are not removals. When \<open>since \<le> 0\<close> the removed list is empty and
  \<open>till\<close> is the largest of \<open>since\<close> and the change numbers of those added deltas. When
  \<open>since > 0\<close> the removed list holds the keys of the removal deltas newer than \<open>since\<close>,
  and \<open>till\<close> is the largest of \<open>since\<close> and all delta change numbers.
\<close>

theorem segment_changes_contract:
  "fetchSegmentsFromDB (Inr item) since =
     (map skey_Name (filter (key_added since) (seg_Keys item)),
      (if 0 < since then map skey_Name (filter (key_removed since) (seg_Keys item)) else []),
      (if 0 < since then Max (insert since (skey_ChangeNumber ` set (seg_Keys item)))
       else Max (insert since (skey_ChangeNumber ` set (filter (key_added since) (seg_Keys item))))),
      None)"
proof -
  let ?ks = "seg_Keys item"
  let ?M = "Max (insert since (skey_ChangeNumber ` set ?ks))"
  let ?C = "insert since (skey_ChangeNumber ` set (filter (key_counted since) ?ks))"
  have pos: "upper since (skey_ChangeNumber ` set (filter (key_counted since) ?ks)) = ?M"
    if "0 < since"
    unfolding upper_def
  proof (rule Max_eqI)
    show "finite ?C" by simp
    have mem: "?M \<in> insert since (skey_ChangeNumber ` set ?ks)"
      by (rule Max_in) simp_all
    have ge: "since \<le> ?M"
      by (rule Max_ge) simp_all
    show "?M \<in> ?C"
    proof (cases "?M = since")
      case True
      then show ?thesis by (simp del: Max_insert)
    next
      case False
      with mem obtain x where x: "x \<in> set ?ks" "skey_ChangeNumber x = ?M" by auto
      with ge False have "since < skey_ChangeNumber x" by linarith
      with that have "key_counted since x" by (simp add: key_counted_def)
      with x(1) have "skey_ChangeNumber x \<in> skey_ChangeNumber ` set (filter (key_counted since) ?ks)"
        by simp
      with x(2) show ?thesis by (simp del: Max_insert)
    qed
    fix y assume "y \<in> ?C"
    then have "y \<in> insert since (skey_ChangeNumber ` set ?ks)" by auto
    then show "y \<le> ?M"
      by (intro Max_ge) simp_all
  qed
  have neg: "filter (key_counted since) ?ks = filter (key_added since) ?ks" if "\<not> 0 < since"
    using that by (intro filter_cong) (auto simp: key_counted_def key_added_def)
  show ?thesis
  proof (cases "0 < since")
    case True
    with pos show ?thesis
      by (simp add: fetchSegmentsFromDB_def segments_loop_eq del: Max_insert)
  next
    case False
    with neg show ?thesis
      by (simp add: fetchSegmentsFromDB_def segments_loop_eq upper_def del: Max_insert)
  qed
qed

theorem segment_changes_contract_witness:
  "fetchSegmentsFromDB
       (Inr \<lparr>seg_Name = ''employees'',
             seg_Keys = [\<lparr>skey_Name = ''k1'', skey_Removed = True, skey_ChangeNumber = 5\<rparr>,
              \<lparr>skey_Name = ''k2'', skey_Removed = False, skey_ChangeNumber = 4\<rparr>,
              \<lparr>skey_Name = ''k3'', skey_Removed = False, skey_ChangeNumber = 2\<rparr>]\<rparr>) 3
     = ([''k2''], [''k1''], 5, None)"
  using segment_changes_contract [of "\<lparr>seg_Name = ''employees'',
             seg_Keys = [\<lparr>skey_Name = ''k1'', skey_Removed = True, skey_ChangeNumber = 5\<rparr>,
              \<lparr>skey_Name = ''k2'', skey_Removed = False, skey_ChangeNumber = 4\<rparr>,
              \<lparr>skey_Name = ''k3'', skey_Removed = False, skey_ChangeNumber = 2\<rparr>]\<rparr>" 3]
  by (simp add: key_added_def key_removed_def)

text \<open>
  The claim as stated asks, for every \<open>since \<ge> 0\<close>, for a populated removed list and for
  \<open>till\<close> to be the largest delta change number. At \<open>since = 0\<close> with one removal delta at
  change number 5 that would be \<open>removed = [k1]\<close> and \<open>till = 5\<close>; the code returns an empty
  removed list and \<open>till = 0\<close>.
\<close>

theorem segment_changes_since_zero_counterexample:
  "fetchSegmentsFromDB
       (Inr \<lparr>seg_Name = ''employees'',
             seg_Keys = [\<lparr>skey_Name = ''k1'', skey_Removed = True, skey_ChangeNumber = 5\<rparr>]\<rparr>) 0
     = ([], [], 0, None) \<and>
   fetchSegmentsFromDB
       (Inr \<lparr>seg_Name = ''employees'',
             seg_Keys = [\<lparr>skey_Name = ''k1'', skey_Removed = True, skey_ChangeNumber = 5\<rparr>]\<rparr>) 0
     \<noteq> ([], [''k1''], 5, None)"
  by (simp add: fetchSegmentsFromDB_def)

section \<open>Recipe miss: fallback to the upstream fetch\<close>

text \<open>
  C2. Let \<open>since\<close> be other than \<open>-1\<close>, the request for the whole snapshot, which the
  storage serves before it consults the recipes. Whenever \<open>FetchSince\<close> fails with an
  error that is \<open>ErrSummaryNotCached\<close>, \<open>ChangesSince\<close> returns \<open>ErrSummaryNotCached\<close> and no
  payload, and \<open>fetchSplitChangesSince\<close> then asks the upstream fetcher for \<open>since\<close>: when
  that fetch succeeds the payload is handed to \<open>RegisterOlderCn\<close> and returned with the
  storage so updated; when it fails the wrapped error is returned and the storage is
  untouched. With the cache of the spec this is what happens for every \<open>since\<close> older
  than the oldest retained recipe.
\<close>

theorem summary_not_cached_fallback:
  assumes "since \<noteq> - 1"
  shows
  "(\<forall>err. op_FetchSince (dep_optimized c) (psi_recipes p) since = Inl err \<and>
          errors_Is err ErrSummaryNotCached \<longrightarrow>
      ChangesSince (dep_optimized c) p since = Inr (Inl ErrSummaryNotCached) \<and>
      fetchSplitChangesSince c p since =
        (case dep_Fetch c since True of
           Inr payload \<Rightarrow> Inr (Inr payload, dep_RegisterOlderCn c payload p)
         | Inl err \<Rightarrow>
             Inr (Inl (Wrapped ''unexpected error fetching split changes from storage'' err), p))) \<and>
   (dep_optimized cs = spec_cache retention build \<and> older_than_retained (psi_recipes ps) since \<longrightarrow>
      ChangesSince (dep_optimized cs) ps since = Inr (Inl ErrSummaryNotCached) \<and>
      fetchSplitChangesSince cs ps since =
        (case dep_Fetch cs since True of
           Inr payload \<Rightarrow> Inr (Inr payload, dep_RegisterOlderCn cs payload ps)
         | Inl err \<Rightarrow>
             Inr (Inl (Wrapped ''unexpected error fetching split changes from storage'' err), ps)))"
proof -
  have miss: "ChangesSince (dep_optimized d) q since = Inr (Inl ErrSummaryNotCached) \<and>
      fetchSplitChangesSince d q since =
        (case dep_Fetch d since True of
           Inr payload \<Rightarrow> Inr (Inr payload, dep_RegisterOlderCn d payload q)
         | Inl err \<Rightarrow>
             Inr (Inl (Wrapped ''unexpected error fetching split changes from storage'' err), q))"
    if "op_FetchSince (dep_optimized d) (psi_recipes q) since = Inl err"
      and "errors_Is err ErrSummaryNotCached"
    for d :: "('x, 'y) sdk_deps" and q err
  proof -
    from that assms have cs: "ChangesSince (dep_optimized d) q since = Inr (Inl ErrSummaryNotCached)"
      by (simp add: ChangesSince_def)
    then show ?thesis by (simp add: fetchSplitChangesSince_def)
  qed
  show ?thesis
  proof (intro conjI allI impI)
    fix err
    assume a: "op_FetchSince (dep_optimized c) (psi_recipes p) since = Inl err \<and>
          errors_Is err ErrSummaryNotCached"
    from miss [of c p err] a
    show "ChangesSince (dep_optimized c) p since = Inr (Inl ErrSummaryNotCached)"
      and "fetchSplitChangesSince c p since =
        (case dep_Fetch c since True of
           Inr payload \<Rightarrow> Inr (Inr payload, dep_RegisterOlderCn c payload p)
         | Inl err \<Rightarrow>
             Inr (Inl (Wrapped ''unexpected error fetching split changes from storage'' err), p))"
      by simp_all
  next
    assume a: "dep_optimized cs = spec_cache retention build \<and>
        older_than_retained (psi_recipes ps) since"
    then have "op_FetchSince (dep_optimized cs) (psi_recipes ps) since = Inl ErrSummaryNotCached"
      by (simp add: spec_cache_def FetchSince_def)
    moreover have "errors_Is ErrSummaryNotCached ErrSummaryNotCached" by simp
    ultimately have m: "ChangesSince (dep_optimized cs) ps since = Inr (Inl ErrSummaryNotCached) \<and>
      fetchSplitChangesSince cs ps since =
        (case dep_Fetch cs since True of
           Inr payload \<Rightarrow> Inr (Inr payload, dep_RegisterOlderCn cs payload ps)
         | Inl err \<Rightarrow>
             Inr (Inl (Wrapped ''unexpected error fetching split changes from storage'' err), ps))"
      by (rule miss)
    from m show "ChangesSince (dep_optimized cs) ps since = Inr (Inl ErrSummaryNotCached)"
      by (rule conjunct1)
    from m show "fetchSplitChangesSince cs ps since =
        (case dep_Fetch cs since True of
           Inr payload \<Rightarrow> Inr (Inr payload, dep_RegisterOlderCn cs payload ps)
         | Inl err \<Rightarrow>
             Inr (Inl (Wrapped ''unexpected error fetching split changes from storage'' err), ps))"
      by (rule conjunct2)
  qed
qed

theorem summary_not_cached_fallback_witness:
  "older_than_retained (psi_recipes storage_S6) 1 \<and>
   ChangesSince (dep_optimized deps0) storage_S6 1 = Inr (Inl ErrSummaryNotCached) \<and>
   fetchSplitChangesSince deps0 storage_S6 1 =
     Inr (Inr \<lparr>dto_Since = 1, dto_Till = 3, dto_Splits = []\<rparr>,
          storage_S6\<lparr>psi_recipes :=
            \<lparr>rcp_cn = 1, rcp_updated = [], rcp_removed = []\<rparr> # psi_recipes storage_S6\<rparr>)"
proof -
  have old: "older_than_retained (psi_recipes storage_S6) 1"
    by (simp add: scenario_S6 older_than_retained_def)
  have sc: "dep_optimized deps0 = spec_cache 2 sample_archived"
    by (simp add: deps0_def sample_cache_def)
  have ne: "(1::int) \<noteq> - 1" by simp
  have hyp: "dep_optimized deps0 = spec_cache 2 sample_archived \<and>
      older_than_retained (psi_recipes storage_S6) 1"
    using sc old by (rule conjI)
  note inst = summary_not_cached_fallback [OF ne, where cs = deps0 and ps = storage_S6
      and retention = 2 and build = sample_archived, THEN conjunct2, THEN mp, OF hyp]
  from inst old show ?thesis by (simp add: deps0_def)
qed


section \<open>Requests without a usable since\<close>

lemma ParseInt64_minus_one: "ParseInt64 ''-1'' = Inr (- 1)"
  by (simp add: ParseInt64_def is_digit_def digit_of_def)

lemma parsed_since_default:
  assumes "q ''since'' = None \<or> (\<exists>v. q ''since'' = Some v \<and> isl (ParseInt64 v))"
  shows "(case ParseInt64 (DefaultQuery q ''since'' ''-1'') of Inl err \<Rightarrow> - 1 | Inr v \<Rightarrow> v) = - 1"
  using assms
  by (auto simp: DefaultQuery_def ParseInt64_minus_one split: sum.splits)

lemma parsed_since_supplied:
  "(case ParseInt64 (DefaultQuery (q(''since'' \<mapsto> ''-1'')) ''since'' ''-1'') of
      Inl err \<Rightarrow> - 1 | Inr v \<Rightarrow> v) = - 1"
  by (simp add: DefaultQuery_def ParseInt64_minus_one)

lemma ParseInt64_examples:
  "ParseInt64 ''9223372036854775807'' = Inr 9223372036854775807"
  "ParseInt64 ''9223372036854775808'' = Inl ErrRange"
  "ParseInt64 ''-9223372036854775808'' = Inr (- 9223372036854775808)"
  "ParseInt64 ''+42'' = Inr 42"
  "ParseInt64 ''12a'' = Inl ErrSyntax"
  "ParseInt64 ''-'' = Inl ErrSyntax"
  "ParseInt64 [] = Inl ErrSyntax"
  by (simp_all add: ParseInt64_def is_digit_def digit_of_def)

text \<open>
  C9. When the \<open>since\<close> parameter of a request is absent, or present but not a base-10
  64-bit integer, each of the four handlers (the SDK server's \<open>SplitChanges\<close> and
  \<open>SegmentChanges\<close>, the legacy \<open>splitChanges\<close> and \<open>segmentChanges\<close>) returns the same
  response and leaves the same state as for the same request with \<open>since=-1\<close>.
\<close>

theorem since_defaults_to_minus_one:
  assumes "q ''since'' = None \<or> (\<exists>v. q ''since'' = Some v \<and> isl (ParseInt64 v))"
  shows "SplitChanges c q st = SplitChanges c (q(''since'' \<mapsto> ''-1'')) st \<and>
         SegmentChanges c segmentName q st = SegmentChanges c segmentName (q(''since'' \<mapsto> ''-1'')) st \<and>
         splitChanges fetchAll q = splitChanges fetchAll (q(''since'' \<mapsto> ''-1'')) \<and>
         segmentChanges fetchSegment segmentName q = segmentChanges fetchSegment segmentName (q(''since'' \<mapsto> ''-1''))"
proof -
  note absent = parsed_since_default [of q, OF assms]
  note supplied = parsed_since_supplied [of q]
  show ?thesis
    unfolding SplitChanges_def SegmentChanges_def splitChanges_def segmentChanges_def Atoi_def
      absent supplied
    by simp
qed

theorem since_defaults_to_minus_one_witness:
  "isl (ParseInt64 ''abc'') \<and>
   SplitChanges deps0 [''since'' \<mapsto> ''abc''] \<lparr>sdk_storage = storage_S6, sdk_telemetry = []\<rparr> =
     SplitChanges deps0 [''since'' \<mapsto> ''-1''] \<lparr>sdk_storage = storage_S6, sdk_telemetry = []\<rparr> \<and>
   splitChanges (Inr []) [''since'' \<mapsto> ''abc''] = splitChanges (Inr []) [''since'' \<mapsto> ''-1''] \<and>
   lo_body (splitChanges (Inr []) [''since'' \<mapsto> ''abc'']) = SplitsH [] (- 1) (- 1)"
proof -
  let ?q = "[''since'' \<mapsto> ''abc'']"
  have bad: "isl (ParseInt64 ''abc'')"
    by (simp add: ParseInt64_def is_digit_def)
  then have h: "?q ''since'' = None \<or> (\<exists>v. ?q ''since'' = Some v \<and> isl (ParseInt64 v))"
    by simp
  note eqs = since_defaults_to_minus_one [where q = ?q and c = deps0
      and st = "\<lparr>sdk_storage = storage_S6, sdk_telemetry = []\<rparr>" and segmentName = "''employees''"
      and fetchAll = "Inr []" and fetchSegment = "\<lambda>name. Inl ErrorBucketNotFound", OF h]
  have m1: "lo_body (splitChanges (Inr []) [''since'' \<mapsto> ''-1'']) = SplitsH [] (- 1) (- 1)"
    by (simp add: splitChanges_def Atoi_def DefaultQuery_def ParseInt64_def is_digit_def digit_of_def
        fetchSplitsFromDB_def Let_def)
  from eqs bad m1 show ?thesis by simp
qed


section \<open>Headers of the impressions bulk post\<close>

text \<open>
  C8. The request \<open>PostImpressions\<close> sends goes to \<open>/testImpressions/bulk\<close> with the given
  body, carries the SDK version in \<open>SplitSDKVersion\<close> and the machine IP in
  \<open>SplitSDKMachineIP\<close>, and its \<open>SplitSDKMachineName\<close> is \<open>ip-\<close> followed by the machine IP
  with every dot replaced by a dash (same length, a dash where the IP has a dot, the IP's
  own character elsewhere). The function takes no machine name, so this is the header of
  every such post; the error returned is the transport's.
\<close>

theorem post_impressions_headers:
  "\<exists>req. PostImpressions send eventsClient data sdkVersion machineIP = (send req, req) \<and>
     req_url req = ''/testImpressions/bulk'' \<and> req_body req = data \<and>
     req_headers req ''SplitSDKVersion'' = Some sdkVersion \<and>
     req_headers req ''SplitSDKMachineIP'' = Some machineIP \<and>
     req_headers req ''SplitSDKMachineName'' = Some (''ip-'' @ dashed machineIP) \<and>
     length (dashed machineIP) = length machineIP \<and>
     CHR ''.'' \<notin> set (dashed machineIP) \<and>
     list_all2 (\<lambda>a b. b = (if a = CHR ''.'' then CHR ''-'' else a)) machineIP (dashed machineIP)"
proof -
  let ?req = "\<lparr>req_url = ''/testImpressions/bulk'',
      req_headers = [''SplitSDKVersion'' \<mapsto> sdkVersion, ''SplitSDKMachineIP'' \<mapsto> machineIP,
                     ''SplitSDKMachineName'' \<mapsto> ''ip-'' @ dashed machineIP],
      req_body = data\<rparr>"
  have run: "PostImpressions send eventsClient data sdkVersion machineIP = (send ?req, ?req)"
    by (cases "send ?req")
       (simp_all add: PostImpressions_def Client_Post_def AddHeader_def ResetHeaders_def Let_def)
  have len: "length (dashed machineIP) = length machineIP"
    by (simp add: dashed_def)
  have nodot: "CHR ''.'' \<notin> set (dashed machineIP)"
    by (auto simp: dashed_def)
  have each: "list_all2 (\<lambda>a b. b = (if a = CHR ''.'' then CHR ''-'' else a)) machineIP (dashed machineIP)"
    by (simp add: dashed_def list_all2_map2 list_all2_same)
  have hdr: "req_headers ?req ''SplitSDKVersion'' = Some sdkVersion"
    "req_headers ?req ''SplitSDKMachineIP'' = Some machineIP"
    "req_headers ?req ''SplitSDKMachineName'' = Some (''ip-'' @ dashed machineIP)"
    by simp_all
  have misc: "req_url ?req = ''/testImpressions/bulk''" "req_body ?req = data"
    by simp_all
  from run misc hdr len nodot each show ?thesis
    by (intro exI [of _ ?req] conjI)
qed

theorem post_impressions_headers_witness:
  "\<exists>req. PostImpressions (\<lambda>r. None) \<lparr>cl_headers = [''Authorization'' \<mapsto> ''Bearer k'']\<rparr>
            ''[]'' ''go-5.0.0'' ''10.0.0.7'' = (None, req) \<and>
     req_headers req ''SplitSDKVersion'' = Some ''go-5.0.0'' \<and>
     req_headers req ''SplitSDKMachineIP'' = Some ''10.0.0.7'' \<and>
     req_headers req ''SplitSDKMachineName'' = Some ''ip-10-0-0-7''"
proof -
  have d: "dashed ''10.0.0.7'' = ''10-0-0-7''"
    by (simp add: dashed_def)
  from post_impressions_headers [of "\<lambda>r. None" "\<lparr>cl_headers = [''Authorization'' \<mapsto> ''Bearer k'']\<rparr>"
      "''[]''" "''go-5.0.0''" "''10.0.0.7''"]
  obtain req where
    "PostImpressions (\<lambda>r. None) \<lparr>cl_headers = [''Authorization'' \<mapsto> ''Bearer k'']\<rparr>
            ''[]'' ''go-5.0.0'' ''10.0.0.7'' = (None, req)"
    "req_headers req ''SplitSDKVersion'' = Some ''go-5.0.0''"
    "req_headers req ''SplitSDKMachineIP'' = Some ''10.0.0.7''"
    "req_headers req ''SplitSDKMachineName'' = Some (''ip-'' @ dashed ''10.0.0.7'')"
    by (elim exE conjE)
  with d show ?thesis by (intro exI [of _ req]) simp
qed

section \<open>Timesliced telemetry: bucket retention\<close>

lemma fold_fmdrop: "fold fmdrop ks m = fmdrop_fset (fset_of_list ks) m"
  by (induction ks arbitrary: m) simp_all

lemma keys_facts:
  "set (sorted_list_of_fset S) = fset S"
  "sorted_wrt (<) (sorted_list_of_fset S)"
  "distinct (sorted_list_of_fset S)"
  "length (sorted_list_of_fset S) = fcard S"
  by (simp_all add: sorted_list_of_fset.rep_eq fcard.rep_eq)

lemma take_below_drop:
  assumes "sorted_wrt (<) (ks :: int list)" "d \<in> set (take h ks)" "k \<in> set (drop h ks)"
  shows "d < k"
proof -
  from assms(1) have "sorted_wrt (<) (take h ks @ drop h ks)" by simp
  with assms(2,3) show ?thesis unfolding sorted_wrt_append by blast
qed

lemma distinct_take_drop_sets:
  assumes "distinct ks"
  shows "set ks - set (take h ks) = set (drop h ks)"
proof -
  from assms have "distinct (take h ks @ drop h ks)" by simp
  then have "set (take h ks) \<inter> set (drop h ks) = {}" by (simp only: distinct_append)
  moreover have "set ks = set (take h ks) \<union> set (drop h ks)"
    by (metis append_take_drop_id set_append)
  ultimately show ?thesis by blast
qed

lemma rollover_evicts:
  fixes t :: "('sc, 'lat, 'g) TimeslicedImpl"
  assumes nonneg: "0 \<le> maxTimeSlices t" and over: "maxTimeSlices t < len_buckets t"
  defines "keys \<equiv> sorted_list_of_fset (fmdom (telemetryByTimeSlice t))"
  defines "h \<equiv> nat (len_buckets t - maxTimeSlices t)"
  shows "unsafeRollover t =
           Inr (t\<lparr>telemetryByTimeSlice :=
                    fmdrop_fset (fset_of_list (take h keys)) (telemetryByTimeSlice t)\<rparr>)"
    and "fset (fmdom (telemetryByTimeSlice t)) - set (take h keys) = set (drop h keys)"
    and "int (length (drop h keys)) = maxTimeSlices t"
    and "\<forall>e \<in> set (take h keys). \<forall>k \<in> set (drop h keys). e < k"
proof -
  have len: "int (length keys) = len_buckets t"
    by (simp add: keys_def keys_facts len_buckets_def)
  from over nonneg len have hi: "\<not> (int (length keys) - maxTimeSlices t < 0)"
    "\<not> (int (length keys) - maxTimeSlices t > int (length keys))"
    by linarith+
  from over have nle: "\<not> len_buckets t \<le> maxTimeSlices t" by simp
  show "unsafeRollover t =
           Inr (t\<lparr>telemetryByTimeSlice :=
                    fmdrop_fset (fset_of_list (take h keys)) (telemetryByTimeSlice t)\<rparr>)"
    using nle hi len
    by (simp add: unsafeRollover_def Let_def fold_fmdrop keys_def [symmetric] h_def)
  have "distinct keys" by (simp add: keys_def keys_facts)
  from distinct_take_drop_sets [OF this, of h]
  show "fset (fmdom (telemetryByTimeSlice t)) - set (take h keys) = set (drop h keys)"
    by (simp add: keys_def keys_facts)
  from len over nonneg show "int (length (drop h keys)) = maxTimeSlices t"
    by (simp add: h_def)
  have "sorted_wrt (<) keys" by (simp add: keys_def keys_facts)
  then show "\<forall>e \<in> set (take h keys). \<forall>k \<in> set (drop h keys). e < k"
    using take_below_drop by blast
qed


lemma rollover_keeps_newest:
  fixes t :: "('sc, 'lat, 'g) TimeslicedImpl"
  assumes nonneg: "0 \<le> maxTimeSlices t" and over: "maxTimeSlices t < len_buckets t"
  shows "\<exists>t'. unsafeRollover t = Inr t' \<and>
           maxTimeSlices t' = maxTimeSlices t \<and> timeSliceWidth t' = timeSliceWidth t \<and>
           len_buckets t' = maxTimeSlices t \<and>
           fmdom (telemetryByTimeSlice t') |\<subseteq>| fmdom (telemetryByTimeSlice t) \<and>
           (\<forall>e k. e |\<in>| fmdom (telemetryByTimeSlice t) \<and> e |\<notin>| fmdom (telemetryByTimeSlice t') \<and>
                  k |\<in>| fmdom (telemetryByTimeSlice t') \<longrightarrow> e < k) \<and>
           (\<forall>k. k |\<in>| fmdom (telemetryByTimeSlice t') \<longrightarrow>
                  fmlookup (telemetryByTimeSlice t') k = fmlookup (telemetryByTimeSlice t) k)"
proof -
  define keys where "keys = sorted_list_of_fset (fmdom (telemetryByTimeSlice t))"
  define h where "h = nat (len_buckets t - maxTimeSlices t)"
  define m' where "m' = fmdrop_fset (fset_of_list (take h keys)) (telemetryByTimeSlice t)"
  note ev = rollover_evicts [OF nonneg over, folded keys_def h_def]
  have run: "unsafeRollover t = Inr (t\<lparr>telemetryByTimeSlice := m'\<rparr>)"
    using ev(1) by (simp add: m'_def)
  have dom: "fset (fmdom m') = set (drop h keys)"
    using ev(2) by (simp add: m'_def fset_of_list.rep_eq)
  have "distinct (drop h keys)"
    by (simp add: keys_def keys_facts)
  then have "card (set (drop h keys)) = length (drop h keys)"
    by (rule distinct_card)
  with dom ev(3) have len: "len_buckets (t\<lparr>telemetryByTimeSlice := m'\<rparr>) = maxTimeSlices t"
    by (simp add: len_buckets_def fcard.rep_eq)
  have sub: "fmdom m' |\<subseteq>| fmdom (telemetryByTimeSlice t)"
    by (auto simp: m'_def)
  have older: "e < k"
    if "e |\<in>| fmdom (telemetryByTimeSlice t)" "e |\<notin>| fmdom m'" "k |\<in>| fmdom m'" for e k
  proof -
    from that(3) dom have k: "k \<in> set (drop h keys)" by auto
    from that(1,2) have "e \<in> set (take h keys)"
      by (auto simp: m'_def fset_of_list.rep_eq)
    with k ev(4) show ?thesis by blast
  qed
  have same: "fmlookup m' k = fmlookup (telemetryByTimeSlice t) k" if "k |\<in>| fmdom m'" for k
    using that by (auto simp: m'_def)
  from run len sub older same show ?thesis
    by (intro exI [of _ "t\<lparr>telemetryByTimeSlice := m'\<rparr>"]) auto
qed

lemma write_bucket_fields:
  "len_buckets (write_bucket key f t) = len_buckets t"
  "maxTimeSlices (write_bucket key f t) = maxTimeSlices t"
  "timeSliceWidth (write_bucket key f t) = timeSliceWidth t"
proof -
  show "len_buckets (write_bucket key f t) = len_buckets t"
  proof (cases "fmlookup (telemetryByTimeSlice t) key")
    case None
    then show ?thesis by (simp add: write_bucket_def)
  next
    case (Some b)
    then have "key |\<in>| fmdom (telemetryByTimeSlice t)" by (rule fmdomI)
    then have "finsert key (fmdom (telemetryByTimeSlice t)) = fmdom (telemetryByTimeSlice t)"
      by auto
    with Some show ?thesis by (simp add: write_bucket_def len_buckets_def)
  qed
qed (simp_all add: write_bucket_def split: option.split)

lemma geHistoricForTS_retains:
  fixes t :: "('sc, 'lat, 'g) TimeslicedImpl"
  assumes inv: "len_buckets t \<le> maxTimeSlices t" and width: "timeSliceWidth t \<noteq> 0"
  shows "\<exists>t' key. geHistoricForTS d t ts = Inr (t', key) \<and>
           len_buckets t' \<le> maxTimeSlices t' \<and>
           maxTimeSlices t' = maxTimeSlices t \<and> timeSliceWidth t' = timeSliceWidth t"
proof -
  define timeSlice where "timeSlice = ts - (ts smod timeSliceWidth t)"
  have key: "keyForTimeSlice ts (timeSliceWidth t) = Inr timeSlice"
    using width by (simp add: keyForTimeSlice_def timeSlice_def)
  show ?thesis
  proof (cases "fmlookup (telemetryByTimeSlice t) timeSlice")
    case (Some current)
    with key inv show ?thesis by (simp add: geHistoricForTS_def)
  next
    case None
    define t1 where "t1 = t\<lparr>telemetryByTimeSlice :=
        fmupd timeSlice (newTimeSliceTelemetry d timeSlice) (telemetryByTimeSlice t)\<rparr>"
    have f1: "maxTimeSlices t1 = maxTimeSlices t" "timeSliceWidth t1 = timeSliceWidth t"
      by (simp_all add: t1_def)
    have "0 \<le> len_buckets t" by (simp add: len_buckets_def)
    with inv have nonneg: "0 \<le> maxTimeSlices t1" using f1 by simp
    show ?thesis
    proof (cases "len_buckets t1 > maxTimeSlices t1")
      case True
      from rollover_keeps_newest [OF nonneg True] obtain t2 where
        t2: "unsafeRollover t1 = Inr t2" "maxTimeSlices t2 = maxTimeSlices t1"
          "timeSliceWidth t2 = timeSliceWidth t1" "len_buckets t2 = maxTimeSlices t1"
        by blast
      with key None True f1 show ?thesis
        by (simp add: geHistoricForTS_def t1_def [symmetric])
    next
      case False
      with key None f1 show ?thesis
        by (simp add: geHistoricForTS_def t1_def [symmetric])
    qed
  qed
qed

text \<open>
  C5. Bucket retention. A freshly constructed telemetry with a non-negative
  \<open>maxTimeSlices\<close> holds no more buckets than that. From any state that holds at most
  \<open>maxTimeSlices\<close> buckets (and whose timeslice width is not zero), \<open>RecordEndpointLatency\<close>
  and \<open>IncrEndpointStatus\<close> return without a panic and leave at most \<open>maxTimeSlices\<close>
  buckets. Whenever \<open>unsafeRollover\<close> finds more buckets than \<open>maxTimeSlices\<close> (which is
  not negative), it leaves exactly \<open>maxTimeSlices\<close> of them, each unchanged, and every
  bucket it deleted has a smaller timeslice key than every bucket it kept.
\<close>

theorem bucket_retention:
  fixes t :: "('sc, 'lat, 'g) TimeslicedImpl" and wrapped :: 'g
  shows
  "(0 \<le> maxSlices \<longrightarrow>
      len_buckets (NewTimeslicedProxyEndpointTelemetry wrapped width maxSlices
                     :: ('sc, 'lat, 'g) TimeslicedImpl) \<le> maxSlices) \<and>
   (len_buckets t \<le> maxTimeSlices t \<and> timeSliceWidth t \<noteq> 0 \<longrightarrow>
      (\<exists>t'. RecordEndpointLatency d now ep latency t = Inr t' \<and>
            maxTimeSlices t' = maxTimeSlices t \<and> timeSliceWidth t' = timeSliceWidth t \<and>
            len_buckets t' \<le> maxTimeSlices t') \<and>
      (\<exists>t'. IncrEndpointStatus d now ep status t = Inr t' \<and>
            maxTimeSlices t' = maxTimeSlices t \<and> timeSliceWidth t' = timeSliceWidth t \<and>
            len_buckets t' \<le> maxTimeSlices t')) \<and>
   (0 \<le> maxTimeSlices t \<and> maxTimeSlices t < len_buckets t \<longrightarrow>
      (\<exists>t'. unsafeRollover t = Inr t' \<and>
           len_buckets t' = maxTimeSlices t \<and>
           fmdom (telemetryByTimeSlice t') |\<subseteq>| fmdom (telemetryByTimeSlice t) \<and>
           (\<forall>e k. e |\<in>| fmdom (telemetryByTimeSlice t) \<and> e |\<notin>| fmdom (telemetryByTimeSlice t') \<and>
                  k |\<in>| fmdom (telemetryByTimeSlice t') \<longrightarrow> e < k) \<and>
           (\<forall>k. k |\<in>| fmdom (telemetryByTimeSlice t') \<longrightarrow>
                  fmlookup (telemetryByTimeSlice t') k = fmlookup (telemetryByTimeSlice t) k)))"
proof (intro conjI impI)
  assume "0 \<le> maxSlices"
  then show "len_buckets (NewTimeslicedProxyEndpointTelemetry wrapped width maxSlices
                     :: ('sc, 'lat, 'g) TimeslicedImpl) \<le> maxSlices"
    by (simp add: NewTimeslicedProxyEndpointTelemetry_def len_buckets_def fcard_fempty)
next
  assume a: "len_buckets t \<le> maxTimeSlices t \<and> timeSliceWidth t \<noteq> 0"
  define t0 where "t0 = t\<lparr>ProxyTelemetryFacade := facade_Record d ep latency (ProxyTelemetryFacade t)\<rparr>"
  have "len_buckets t0 \<le> maxTimeSlices t0" "timeSliceWidth t0 \<noteq> 0"
    using a by (simp_all add: t0_def len_buckets_def)
  from geHistoricForTS_retains [OF this, of d now] obtain t1 key where
    g: "geHistoricForTS d t0 now = Inr (t1, key)" "len_buckets t1 \<le> maxTimeSlices t1"
       "maxTimeSlices t1 = maxTimeSlices t0" "timeSliceWidth t1 = timeSliceWidth t0"
    by blast
  then show "\<exists>t'. RecordEndpointLatency d now ep latency t = Inr t' \<and>
            maxTimeSlices t' = maxTimeSlices t \<and> timeSliceWidth t' = timeSliceWidth t \<and>
            len_buckets t' \<le> maxTimeSlices t'"
    by (simp add: RecordEndpointLatency_def t0_def [symmetric] write_bucket_fields) (simp add: t0_def)
next
  assume a: "len_buckets t \<le> maxTimeSlices t \<and> timeSliceWidth t \<noteq> 0"
  define t0 where "t0 = t\<lparr>ProxyTelemetryFacade := facade_Incr d ep status (ProxyTelemetryFacade t)\<rparr>"
  have "len_buckets t0 \<le> maxTimeSlices t0" "timeSliceWidth t0 \<noteq> 0"
    using a by (simp_all add: t0_def len_buckets_def)
  from geHistoricForTS_retains [OF this, of d now] obtain t1 key where
    g: "geHistoricForTS d t0 now = Inr (t1, key)" "len_buckets t1 \<le> maxTimeSlices t1"
       "maxTimeSlices t1 = maxTimeSlices t0" "timeSliceWidth t1 = timeSliceWidth t0"
    by blast
  then show "\<exists>t'. IncrEndpointStatus d now ep status t = Inr t' \<and>
            maxTimeSlices t' = maxTimeSlices t \<and> timeSliceWidth t' = timeSliceWidth t \<and>
            len_buckets t' \<le> maxTimeSlices t'"
    by (simp add: IncrEndpointStatus_def t0_def [symmetric] write_bucket_fields) (simp add: t0_def)
next
  assume a: "0 \<le> maxTimeSlices t \<and> maxTimeSlices t < len_buckets t"
  then have "0 \<le> maxTimeSlices t" "maxTimeSlices t < len_buckets t" by simp_all
  from rollover_keeps_newest [OF this]
  show "\<exists>t'. unsafeRollover t = Inr t' \<and>
           len_buckets t' = maxTimeSlices t \<and>
           fmdom (telemetryByTimeSlice t') |\<subseteq>| fmdom (telemetryByTimeSlice t) \<and>
           (\<forall>e k. e |\<in>| fmdom (telemetryByTimeSlice t) \<and> e |\<notin>| fmdom (telemetryByTimeSlice t') \<and>
                  k |\<in>| fmdom (telemetryByTimeSlice t') \<longrightarrow> e < k) \<and>
           (\<forall>k. k |\<in>| fmdom (telemetryByTimeSlice t') \<longrightarrow>
                  fmlookup (telemetryByTimeSlice t') k = fmlookup (telemetryByTimeSlice t) k)"
    by blast
qed


lemma len_slices3: "len_buckets slices3 = 3"
  by (simp add: slices3_def len_buckets_def fcard_finsert_if fcard_fempty)

lemma len_slices4: "len_buckets slices4 = 4"
  by (simp add: slices4_def slices3_def len_buckets_def fcard_finsert_if fcard_fempty)

theorem bucket_retention_witness:
  "len_buckets slices3 \<le> maxTimeSlices slices3 \<and> timeSliceWidth slices3 \<noteq> 0 \<and>
   (\<exists>t'. RecordEndpointLatency ts_deps0 250 1 12 slices3 = Inr t' \<and> len_buckets t' \<le> 3) \<and>
   (\<exists>t'. IncrEndpointStatus ts_deps0 250 1 200 slices3 = Inr t' \<and> len_buckets t' \<le> 3) \<and>
   0 \<le> maxTimeSlices slices4 \<and> maxTimeSlices slices4 < len_buckets slices4 \<and>
   (\<exists>t'. unsafeRollover slices4 = Inr t' \<and> len_buckets t' = 3 \<and>
         60 |\<notin>| fmdom (telemetryByTimeSlice t'))"
proof -
  have m3: "maxTimeSlices slices3 = 3" "timeSliceWidth slices3 = 60"
    by (simp_all add: slices3_def)
  have m4: "maxTimeSlices slices4 = 3"
    by (simp add: slices4_def slices3_def)
  have h3: "len_buckets slices3 \<le> maxTimeSlices slices3 \<and> timeSliceWidth slices3 \<noteq> 0"
    by (simp add: len_slices3 m3)
  have h4: "0 \<le> maxTimeSlices slices4 \<and> maxTimeSlices slices4 < len_buckets slices4"
    by (simp add: len_slices4 m4)
  note thm3 = bucket_retention [where t = slices3 and d = ts_deps0 and now = 250 and ep = 1
      and latency = 12 and status = 200 and maxSlices = 3,
      THEN conjunct2, THEN conjunct1, THEN mp, OF h3]
  note thm4 = bucket_retention [where t = slices4 and maxSlices = 3,
      THEN conjunct2, THEN conjunct2, THEN mp, OF h4]
  from thm3 m3 have rec: "\<exists>t'. RecordEndpointLatency ts_deps0 250 1 12 slices3 = Inr t' \<and> len_buckets t' \<le> 3"
    and inc: "\<exists>t'. IncrEndpointStatus ts_deps0 250 1 200 slices3 = Inr t' \<and> len_buckets t' \<le> 3"
    by auto
  from thm4 obtain t' where t':
    "unsafeRollover slices4 = Inr t'" "len_buckets t' = maxTimeSlices slices4"
    "fmdom (telemetryByTimeSlice t') |\<subseteq>| fmdom (telemetryByTimeSlice slices4)"
    "\<forall>e k. e |\<in>| fmdom (telemetryByTimeSlice slices4) \<and> e |\<notin>| fmdom (telemetryByTimeSlice t') \<and>
           k |\<in>| fmdom (telemetryByTimeSlice t') \<longrightarrow> e < k"
    by blast
  have dom4: "fmdom (telemetryByTimeSlice slices4) = {|60, 120, 180, 240|}"
    by (auto simp: slices4_def slices3_def)
  have "60 |\<notin>| fmdom (telemetryByTimeSlice t')"
  proof
    assume in60: "60 |\<in>| fmdom (telemetryByTimeSlice t')"
    have "fcard (fmdom (telemetryByTimeSlice t')) < fcard (fmdom (telemetryByTimeSlice slices4))"
      using t'(2) m4 len_slices4 by (simp add: len_buckets_def)
    with t'(3) have "fmdom (telemetryByTimeSlice t') \<noteq> fmdom (telemetryByTimeSlice slices4)"
      by auto
    with t'(3) obtain e where e: "e |\<in>| fmdom (telemetryByTimeSlice slices4)"
      "e |\<notin>| fmdom (telemetryByTimeSlice t')" by auto
    with t'(4) in60 have "e < 60" by blast
    with e(1) dom4 show False by auto
  qed
  with t'(1,2) m4 have "\<exists>t'. unsafeRollover slices4 = Inr t' \<and> len_buckets t' = 3 \<and>
         60 |\<notin>| fmdom (telemetryByTimeSlice t')" by auto
  with h3 h4 rec inc show ?thesis by (intro conjI) (elim conjE, assumption)+
qed


section \<open>Events are posted in one bulk per metadata triple\<close>

lemma lookup3_append_event:
  "lookup3 (append_event s i n ev t) k =
     (if k = (s, i, n)
      then Some ((case lookup3 t (s, i, n) of None \<Rightarrow> [] | Some b \<Rightarrow> b) @ [ev])
      else lookup3 t k)"
  by (cases k)
     (auto simp: lookup3_def append_event_def Let_def update_conv' split: option.splits)

lemma keys_once_append_event:
  assumes "keys_once t"
  shows "keys_once (append_event s i n ev t)"
  using assms unfolding keys_once_def append_event_def Let_def
  by (auto simp: update_conv' distinct_update split: option.splits if_splits)


lemma group_events_step:
  "group_events (e # rest) t =
     (case posted_key e of
        None \<Rightarrow> group_events rest t
      | Some (s, i, n) \<Rightarrow> group_events rest (append_event s i n (se_Event e) t))"
  by (simp add: posted_key_def Let_def)

lemma keys_once_group_events:
  "keys_once t \<Longrightarrow> keys_once (group_events stored t)"
proof (induction stored arbitrary: t)
  case Nil
  then show ?case by simp
next
  case (Cons e rest)
  show ?case
  proof (cases "posted_key e")
    case None
    with Cons show ?thesis by (simp only: group_events_step option.case)
  next
    case (Some k)
    obtain s i n where k: "k = (s, i, n)" by (cases k)
    from Cons.prems have "keys_once (append_event s i n (se_Event e) t)"
      by (rule keys_once_append_event)
    from Cons.IH [OF this] Some k show ?thesis
      by (simp only: group_events_step option.case prod.case)
  qed
qed

lemma lookup3_group_events:
  "lookup3 (group_events stored t) k =
     (if bulk_for stored k = [] then lookup3 t k
      else Some ((case lookup3 t k of None \<Rightarrow> [] | Some b \<Rightarrow> b) @ bulk_for stored k))"
proof (induction stored arbitrary: t)
  case Nil
  then show ?case by (simp add: bulk_for_def)
next
  case (Cons e rest)
  show ?case
  proof (cases "posted_key e")
    case None
    then have "bulk_for (e # rest) k = bulk_for rest k" by (simp add: bulk_for_def)
    with None Cons.IH [of t] show ?thesis
      by (simp only: group_events_step option.case)
  next
    case (Some k')
    obtain s i n where k': "k' = (s, i, n)" by (cases k')
    let ?t' = "append_event s i n (se_Event e) t"
    have step: "group_events (e # rest) t = group_events rest ?t'"
      using Some k' by (simp only: group_events_step option.case prod.case)
    show ?thesis
    proof (cases "k = k'")
      case True
      then have b: "bulk_for (e # rest) k = se_Event e # bulk_for rest k"
        using Some by (simp add: bulk_for_def)
      have l: "lookup3 ?t' k = Some ((case lookup3 t k of None \<Rightarrow> [] | Some b \<Rightarrow> b) @ [se_Event e])"
        using True k' by (simp add: lookup3_append_event)
      show ?thesis unfolding step Cons.IH [of ?t'] l b by simp
    next
      case False
      then have b: "bulk_for (e # rest) k = bulk_for rest k"
        using Some by (auto simp: bulk_for_def)
      have l: "lookup3 ?t' k = lookup3 t k"
        using False k' by (simp add: lookup3_append_event)
      show ?thesis unfolding step Cons.IH [of ?t'] l b by simp
    qed
  qed
qed

lemma mem_calls_byName:
  "(bulk, s', i', n) \<in> set (calls_byName s i forIp) \<longleftrightarrow>
     s' = s \<and> i' = i \<and> (n, bulk) \<in> set forIp"
  by (induction forIp) (auto simp: calls_byName_def)

lemma mem_calls_byIP:
  "(bulk, s', i, n) \<in> set (calls_byIP s forSdk) \<longleftrightarrow>
     s' = s \<and> (\<exists>forIp. (i, forIp) \<in> set forSdk \<and> (n, bulk) \<in> set forIp)"
proof (induction forSdk)
  case Nil
  then show ?case by (simp add: calls_byIP_def)
next
  case (Cons p forSdk)
  obtain i0 forIp0 where p: "p = (i0, forIp0)" by (cases p)
  have "calls_byIP s (p # forSdk) = calls_byName s i0 forIp0 @ calls_byIP s forSdk"
    by (simp add: calls_byIP_def p)
  with Cons.IH show ?case
    by (auto simp: mem_calls_byName p)
qed

lemma mem_post_calls:
  "(bulk, s, i, n) \<in> set (post_calls t) \<longleftrightarrow>
     (\<exists>forSdk forIp. (s, forSdk) \<in> set t \<and> (i, forIp) \<in> set forSdk \<and> (n, bulk) \<in> set forIp)"
proof (induction t)
  case Nil
  then show ?case by (simp add: post_calls_def)
next
  case (Cons p t)
  obtain s0 forSdk0 where p: "p = (s0, forSdk0)" by (cases p)
  have "post_calls (p # t) = calls_byIP s0 forSdk0 @ post_calls t"
    by (simp add: post_calls_def p)
  with Cons.IH show ?case
    by (auto simp: mem_calls_byIP p)
qed

lemma mem_post_calls_lookup3:
  assumes "keys_once t"
  shows "(bulk, k) \<in> set (post_calls t) \<longleftrightarrow> lookup3 t k = Some bulk"
proof -
  obtain s i n where k: "k = (s, i, n)" by (cases k)
  from assms have d0: "distinct (map fst t)"
    and d1: "\<And>s forSdk. map_of t s = Some forSdk \<Longrightarrow> distinct (map fst forSdk)"
    and d2: "\<And>s forSdk i forIp. map_of t s = Some forSdk \<Longrightarrow> map_of forSdk i = Some forIp
              \<Longrightarrow> distinct (map fst forIp)"
    unfolding keys_once_def by blast+
  show ?thesis
  proof
    assume "(bulk, k) \<in> set (post_calls t)"
    then obtain forSdk forIp where m: "(s, forSdk) \<in> set t" "(i, forIp) \<in> set forSdk"
      "(n, bulk) \<in> set forIp"
      unfolding k mem_post_calls by blast
    from m(1) d0 have a: "map_of t s = Some forSdk" by simp
    from m(2) d1 [OF a] have b: "map_of forSdk i = Some forIp" by simp
    from m(3) d2 [OF a b] have "map_of forIp n = Some bulk" by simp
    with a b show "lookup3 t k = Some bulk" by (simp add: lookup3_def k)
  next
    assume "lookup3 t k = Some bulk"
    then obtain forSdk forIp where a: "map_of t s = Some forSdk"
      and b: "map_of forSdk i = Some forIp" and c: "map_of forIp n = Some bulk"
      by (auto simp: lookup3_def k split: option.splits)
    from a b c have "(s, forSdk) \<in> set t" "(i, forIp) \<in> set forSdk" "(n, bulk) \<in> set forIp"
      by (auto dest: map_of_SomeD)
    then show "(bulk, k) \<in> set (post_calls t)"
      unfolding k mem_post_calls by blast
  qed
qed


lemma distinct_calls_byName:
  assumes "distinct (map fst forIp)"
  shows "distinct (map snd (calls_byName s i forIp))"
  using assms
proof (induction forIp)
  case Nil
  then show ?case by (simp add: calls_byName_def)
next
  case (Cons p forIp)
  obtain n0 b0 where p: "p = (n0, b0)" by (cases p)
  have split: "calls_byName s i (p # forIp) = (b0, s, i, n0) # calls_byName s i forIp"
    by (simp add: calls_byName_def p)
  have "(s, i, n0) \<notin> snd ` set (calls_byName s i forIp)"
  proof
    assume "(s, i, n0) \<in> snd ` set (calls_byName s i forIp)"
    then obtain b where "(b, s, i, n0) \<in> set (calls_byName s i forIp)" by force
    then have "(n0, b) \<in> set forIp" by (simp add: mem_calls_byName)
    then have "n0 \<in> fst ` set forIp" by force
    with Cons.prems show False by (simp add: p)
  qed
  with Cons show ?case by (simp add: split)
qed

lemma distinct_calls_byIP:
  assumes "distinct (map fst forSdk)"
    and "\<And>i forIp. (i, forIp) \<in> set forSdk \<Longrightarrow> distinct (map fst forIp)"
  shows "distinct (map snd (calls_byIP s forSdk))"
  using assms
proof (induction forSdk)
  case Nil
  then show ?case by (simp add: calls_byIP_def)
next
  case (Cons p forSdk)
  obtain i0 forIp0 where p: "p = (i0, forIp0)" by (cases p)
  have split: "calls_byIP s (p # forSdk) = calls_byName s i0 forIp0 @ calls_byIP s forSdk"
    by (simp add: calls_byIP_def p)
  have d1: "distinct (map snd (calls_byName s i0 forIp0))"
    by (rule distinct_calls_byName) (rule Cons.prems(2) [of i0 forIp0], simp add: p)
  have d2: "distinct (map snd (calls_byIP s forSdk))"
    using Cons.prems by (intro Cons.IH) auto
  have disj: "snd ` set (calls_byName s i0 forIp0) \<inter> snd ` set (calls_byIP s forSdk) = {}"
  proof (rule ccontr)
    assume "snd ` set (calls_byName s i0 forIp0) \<inter> snd ` set (calls_byIP s forSdk) \<noteq> {}"
    then obtain b1 b2 k where m: "(b1, k) \<in> set (calls_byName s i0 forIp0)"
      "(b2, k) \<in> set (calls_byIP s forSdk)" by force
    obtain s' i n where k: "k = (s', i, n)" by (cases k)
    from m(1) have "i = i0" by (simp add: k mem_calls_byName)
    moreover from m(2) obtain forIp where "(i, forIp) \<in> set forSdk"
      by (auto simp: k mem_calls_byIP)
    ultimately have "i0 \<in> fst ` set forSdk" by force
    with Cons.prems(1) show False by (simp add: p)
  qed
  from d1 d2 disj show ?case by (simp add: split)
qed

lemma distinct_post_calls:
  assumes "keys_once t"
  shows "distinct (map snd (post_calls t))"
proof -
  have gen: "distinct (map snd (post_calls u))"
    if "distinct (map fst u)"
      and "\<And>s forSdk. (s, forSdk) \<in> set u \<Longrightarrow> distinct (map fst forSdk) \<and>
             (\<forall>i forIp. (i, forIp) \<in> set forSdk \<longrightarrow> distinct (map fst forIp))"
    for u :: "'a toSend"
    using that
  proof (induction u)
    case Nil
    then show ?case by (simp add: post_calls_def)
  next
    case (Cons p u)
    obtain s0 forSdk0 where p: "p = (s0, forSdk0)" by (cases p)
    have split: "post_calls (p # u) = calls_byIP s0 forSdk0 @ post_calls u"
      by (simp add: post_calls_def p)
    have here: "distinct (map fst forSdk0) \<and>
        (\<forall>i forIp. (i, forIp) \<in> set forSdk0 \<longrightarrow> distinct (map fst forIp))"
      by (rule Cons.prems(2) [of s0 forSdk0]) (simp add: p)
    then have d1: "distinct (map snd (calls_byIP s0 forSdk0))"
      by (intro distinct_calls_byIP) blast+
    have d2: "distinct (map snd (post_calls u))"
      using Cons.prems by (intro Cons.IH) auto
    have disj: "snd ` set (calls_byIP s0 forSdk0) \<inter> snd ` set (post_calls u) = {}"
    proof (rule ccontr)
      assume "snd ` set (calls_byIP s0 forSdk0) \<inter> snd ` set (post_calls u) \<noteq> {}"
      then obtain b1 b2 k where m: "(b1, k) \<in> set (calls_byIP s0 forSdk0)"
        "(b2, k) \<in> set (post_calls u)" by force
      obtain s i n where k: "k = (s, i, n)" by (cases k)
      from m(1) have "s = s0" by (simp add: k mem_calls_byIP)
      moreover from m(2) obtain forSdk where "(s, forSdk) \<in> set u"
        by (auto simp: k mem_post_calls)
      ultimately have "s0 \<in> fst ` set u" by force
      with Cons.prems(1) show False by (simp add: p)
    qed
    from d1 d2 disj show ?case by (simp add: split)
  qed
  from assms have d0: "distinct (map fst t)"
    and d1: "\<And>s forSdk. map_of t s = Some forSdk \<Longrightarrow> distinct (map fst forSdk)"
    and d2: "\<And>s forSdk i forIp. map_of t s = Some forSdk \<Longrightarrow> map_of forSdk i = Some forIp
              \<Longrightarrow> distinct (map fst forIp)"
    unfolding keys_once_def by blast+
  show ?thesis
  proof (rule gen [OF d0])
    fix s forSdk assume "(s, forSdk) \<in> set t"
    with d0 have a: "map_of t s = Some forSdk" by simp
    show "distinct (map fst forSdk) \<and>
             (\<forall>i forIp. (i, forIp) \<in> set forSdk \<longrightarrow> distinct (map fst forIp))"
    proof (intro conjI allI impI)
      show "distinct (map fst forSdk)" by (rule d1 [OF a])
      fix i forIp assume "(i, forIp) \<in> set forSdk"
      with d1 [OF a] have "map_of forSdk i = Some forIp" by simp
      from d2 [OF a this] show "distinct (map fst forIp)" .
    qed
  qed
qed

lemma lookup3_empty: "lookup3 [] k = None"
  by (cases k) (simp add: lookup3_def)

text \<open>
  C7. For every batch the task drains: no two \<open>Post\<close> calls carry the same
  (sdkVersion, machineIP, machineName) triple; a triple is posted exactly when some drained
  event has a non-empty SDK version and machine IP and that triple as its metadata, with
  \<open>unknown\<close> standing for an empty machine name; and the bulk posted under a triple is the
  list of the events of that triple, all of them and no others, in the order they were
  drained. Events with an empty SDK version or machine IP have no triple and are in no bulk.
\<close>

theorem events_grouped_by_metadata:
  assumes "taskPostEvents post (Inr stored) = (calls, logged)"
  shows "distinct (map snd calls) \<and>
         (\<forall>k. k \<in> snd ` set calls \<longleftrightarrow> (\<exists>e \<in> set stored. posted_key e = Some k)) \<and>
         (\<forall>bulk k. (bulk, k) \<in> set calls \<longrightarrow>
            bulk = map se_Event (filter (\<lambda>e. posted_key e = Some k) stored))"
proof -
  let ?t = "group_events stored []"
  from assms have calls: "calls = post_calls ?t"
    by (simp add: taskPostEvents_def Let_def)
  have ko: "keys_once ?t"
    by (rule keys_once_group_events) (simp add: keys_once_def)
  have look: "lookup3 ?t k = (if bulk_for stored k = [] then None else Some (bulk_for stored k))" for k
    by (simp add: lookup3_group_events lookup3_empty)
  have mem: "(bulk, k) \<in> set calls \<longleftrightarrow> bulk_for stored k \<noteq> [] \<and> bulk = bulk_for stored k" for bulk k
    unfolding calls mem_post_calls_lookup3 [OF ko] look by auto
  have nonempty: "bulk_for stored k \<noteq> [] \<longleftrightarrow> (\<exists>e \<in> set stored. posted_key e = Some k)" for k
    by (auto simp: bulk_for_def filter_empty_conv)
  have 1: "distinct (map snd calls)"
    unfolding calls by (rule distinct_post_calls [OF ko])
  have 2: "k \<in> snd ` set calls \<longleftrightarrow> (\<exists>e \<in> set stored. posted_key e = Some k)" for k
  proof -
    have "k \<in> snd ` set calls \<longleftrightarrow> (\<exists>bulk. (bulk, k) \<in> set calls)" by force
    then show ?thesis by (simp add: mem nonempty)
  qed
  have 3: "bulk = map se_Event (filter (\<lambda>e. posted_key e = Some k) stored)"
    if "(bulk, k) \<in> set calls" for bulk k
    using that by (simp add: mem bulk_for_def)
  from 1 2 3 show ?thesis by blast
qed


theorem events_grouped_by_metadata_witness:
  "taskPostEvents (\<lambda>c. None) (Inr stored4) =
     ([([1, 3], ''go-1'', ''1.1.1.1'', ''unknown''), ([4], ''go-1'', ''2.2.2.2'', ''host'')], []) \<and>
   distinct [(''go-1'', ''1.1.1.1'', ''unknown''), (''go-1'', ''2.2.2.2'', ''host'')] \<and>
   [1, 3] = map se_Event
     (filter (\<lambda>e. posted_key e = Some (''go-1'', ''1.1.1.1'', ''unknown'')) stored4)"
proof -
  have run: "taskPostEvents (\<lambda>c. None) (Inr stored4) =
     ([([1, 3], ''go-1'', ''1.1.1.1'', ''unknown''), ([4], ''go-1'', ''2.2.2.2'', ''host'')], [])"
    by (simp add: taskPostEvents_def stored4_def append_event_def post_calls_def calls_byIP_def
        calls_byName_def Let_def)
  note inst = events_grouped_by_metadata [OF run]
  from inst have d: "distinct (map snd [([1::nat, 3], ''go-1'', ''1.1.1.1'', ''unknown''),
      ([4], ''go-1'', ''2.2.2.2'', ''host'')])"
    by (rule conjunct1)
  from inst have "[1, 3] = map se_Event
     (filter (\<lambda>e. posted_key e = Some (''go-1'', ''1.1.1.1'', ''unknown'')) stored4)"
    by simp
  with run d show ?thesis by simp
qed


section \<open>Recording impressions: what a failed post returns\<close>

lemma WithAttempts_Suc:
  "WithAttempts (Suc n) main s =
     (case main s of (None, s') \<Rightarrow> (None, s') | (Some e, s') \<Rightarrow> attempts_loop n main (Some e) s')"
  by (simp add: WithAttempts_def)

lemma WithAttempts_record_callback:
  "WithAttempts 3 (record_callback d impressions metadata) w = record_callback d impressions metadata w"
proof -
  have "fst (record_callback d impressions metadata w) = None"
    by (simp add: record_callback_def Let_def)
  then obtain w' where "record_callback d impressions metadata w = (None, w')"
    by (cases "record_callback d impressions metadata w") simp
  then show ?thesis
    by (simp add: numeral_3_eq_3 WithAttempts_Suc)
qed

lemma record_callback_gate:
  "w_gate (snd (record_callback d impressions metadata w)) = w_gate w"
  by (simp add: record_callback_def Let_def)

lemma recordImpressions_step:
  "recordImpressions d ((metadata, impressions) # rest) w =
     recordImpressions d rest
       ((snd (record_callback d impressions metadata
          (if d_ProducerMode d
           then w\<lparr>w_flushed := w_flushed w @ [(length impressions, d_Count d (w_storage w))]\<rparr>
           else w)))
        \<lparr>w_telemetry :=
           w_telemetry (snd (record_callback d impressions metadata
             (if d_ProducerMode d
              then w\<lparr>w_flushed := w_flushed w @ [(length impressions, d_Count d (w_storage w))]\<rparr>
              else w))) @ [RecordSyncLatency, RecordSuccessfulSync]\<rparr>)"
proof -
  let ?w0 = "if d_ProducerMode d
           then w\<lparr>w_flushed := w_flushed w @ [(length impressions, d_Count d (w_storage w))]\<rparr>
           else w"
  have "fst (record_callback d impressions metadata ?w0) = None"
    by (simp add: record_callback_def Let_def)
  then obtain w1 where cb: "record_callback d impressions metadata ?w0 = (None, w1)"
    by (cases "record_callback d impressions metadata ?w0") simp
  show ?thesis
    by (simp only: recordImpressions.simps Let_def WithAttempts_record_callback cb) simp
qed

lemma recordImpressions_returns_nil:
  "fst (recordImpressions d toSend w) = None \<and>
   w_gate (snd (recordImpressions d toSend w)) = w_gate w \<and>
   length (w_recorded (snd (recordImpressions d toSend w))) = length (w_recorded w) + length toSend"
proof (induction toSend arbitrary: w)
  case Nil
  then show ?case by simp
next
  case (Cons p rest)
  obtain metadata impressions where p: "p = (metadata, impressions)" by (cases p)
  show ?case
    unfolding p recordImpressions_step
    by (simp add: Cons.IH) (simp add: record_callback_def Let_def)
qed

text \<open>
  C3. The failing input: one bulk for one metadata, and an upstream that answers every
  \<open>Record\<close> call with HTTP 500. \<open>recordImpressions\<close> calls \<open>Record\<close> once, logs the
  failure, returns nil, and writes the sync latency and the successful sync to the
  telemetry; no sync error is recorded and no second attempt is made. The callback handed
  to \<open>WithAttempts\<close> returns nil whatever \<open>Record\<close> returned, so the branch that records
  the HTTP error and returns it is never taken (\<open>recordImpressions_returns_nil\<close> shows this
  for every input).
\<close>

theorem recordImpressions_swallows_failure:
  "recordImpressions (sample_deps (\<lambda>n. Some (HTTPError 500 ''unavailable''))) [(md0, [7])]
     (sample_world (\<lambda>kind. False) []) =
   (None,
    (sample_world (\<lambda>kind. False) [])
      \<lparr>w_recorded := [([7], md0, [(''SplitSDKImpressionsMode'', ''OPTIMIZED'')])],
       w_telemetry := [RecordSyncLatency, RecordSuccessfulSync],
       w_errors := [''Error posting impressions'']\<rparr>)"
  by (simp add: WithAttempts_def numeral_3_eq_3 record_callback_def sample_deps_def
      sample_world_def Let_def)


section \<open>Impressions and the operation gate\<close>

lemma fetch_gate: "w_gate (snd (fetch d bulkSize w)) = w_gate w"
  by (simp add: fetch_def split: prod.splits sum.splits)

lemma sendDataToListener_gate: "w_gate (sendDataToListener d forListener w) = w_gate w"
proof (induction forListener arbitrary: w)
  case Nil
  then show ?case by simp
next
  case (Cons p rest)
  obtain metadata impressions where p: "p = (metadata, impressions)" by (cases p)
  show ?case
    unfolding p by (simp add: Cons.IH split: sum.splits prod.splits option.splits)
qed

lemma synchronizeImpressions_gate:
  "w_gate (snd (synchronizeImpressions d bulkSize w)) = w_gate w"
proof (cases "fetch d bulkSize w")
  case (Pair r w1)
  from fetch_gate [of d bulkSize w] Pair have g1: "w_gate w1 = w_gate w" by simp
  show ?thesis
  proof (cases r)
    case (Inl err)
    with Pair g1 show ?thesis by (simp add: synchronizeImpressions_def)
  next
    case (Inr both)
    obtain toSend forListener where both: "both = (toSend, forListener)" by (cases both)
    obtain e w2 where rec: "recordImpressions d toSend w1 = (e, w2)"
      by (cases "recordImpressions d toSend w1")
    from recordImpressions_returns_nil [of d toSend w1] rec
    have e: "e = None" and g2: "w_gate w2 = w_gate w1" by simp_all
    from Pair Inr both rec e g1 g2 show ?thesis
      by (simp add: synchronizeImpressions_def sendDataToListener_gate)
  qed
qed

lemma flush_loop_returns:
  assumes "0 < d_DefaultSize d"
  shows "\<exists>err w'. flush_loop d elementsToFlush w = Some (err, w') \<and> w_gate w' = w_gate w"
proof (induction "nat elementsToFlush" arbitrary: elementsToFlush w rule: less_induct)
  case less
  show ?case
  proof (cases "elementsToFlush > 0 \<and> d_Count d (w_storage w) > 0")
    case False
    then show ?thesis by (subst flush_loop.simps) auto
  next
    case True
    let ?maxSize = "if elementsToFlush < d_DefaultSize d then elementsToFlush else d_DefaultSize d"
    obtain e w1 where sync: "synchronizeImpressions d ?maxSize w = (e, w1)"
      by (cases "synchronizeImpressions d ?maxSize w")
    from synchronizeImpressions_gate [of d ?maxSize w] sync
    have g1: "w_gate w1 = w_gate w" by simp
    show ?thesis
    proof (cases e)
      case (Some err)
      with True sync g1 show ?thesis
        by (subst flush_loop.simps) (simp add: Let_def)
    next
      case None
      from True assms have "nat (elementsToFlush - d_DefaultSize d) < nat elementsToFlush"
        by linarith
      from less [OF this, of w1] obtain err w' where
        "flush_loop d (elementsToFlush - d_DefaultSize d) w1 = Some (err, w')"
        "w_gate w' = w_gate w1" by blast
      with True sync None g1 show ?thesis
        by (subst flush_loop.simps) (simp add: Let_def)
    qed
  qed
qed

text \<open>
  C6. \<open>SynchronizeImpressions\<close> that finds the Impressions operation running returns nil
  and leaves the whole state as it was: nothing is popped, posted or recorded.
  \<open>FlushImpressions\<close> whose request for the operation is denied returns the busy error at
  once, with nothing popped or posted. \<open>FlushImpressions\<close> whose request is granted
  returns (the flush loop ends when \<open>DefaultSize\<close> is positive) and its last step is
  \<open>FinishOperation\<close> on the gate the request left. With the gate as the spec describes
  it, a running operation denies the request and leaves the gate alone, and a granted flush
  ends with the Impressions operation not running and the gate as it found it.
\<close>

theorem impressions_gate_contract:
  fixes d :: "('g, 'q, 'm, 'imp, 'lsi, 'feat, 'lfeat, 'dto, 'lst, 'lq) imp_deps"
    and ds :: "(gate, 'q, 'm, 'imp, 'lsi, 'feat, 'lfeat, 'dto, 'lst, 'lq) imp_deps"
  shows
  "(d_IsOperationRunning d ImpressionsOperation (w_gate w) \<longrightarrow>
      SynchronizeImpressions d bulkSize w = (None, w)) \<and>
   (\<forall>g'. d_RequestOperation d ImpressionsOperation (w_gate w) = (False, g') \<longrightarrow>
      FlushImpressions d bulkSize w = Some (Some flush_busy, w\<lparr>w_gate := g'\<rparr>)) \<and>
   (\<forall>g'. d_RequestOperation d ImpressionsOperation (w_gate w) = (True, g') \<and> 0 < d_DefaultSize d \<longrightarrow>
      (\<exists>err w'. FlushImpressions d bulkSize w = Some (err, w') \<and>
                w_gate w' = d_FinishOperation d ImpressionsOperation g')) \<and>
   (uses_gate ds \<and> IsOperationRunning ImpressionsOperation (w_gate v) \<longrightarrow>
      FlushImpressions ds bulkSize v = Some (Some flush_busy, v)) \<and>
   (uses_gate ds \<and> \<not> IsOperationRunning ImpressionsOperation (w_gate v) \<and> 0 < d_DefaultSize ds \<longrightarrow>
      (\<exists>err v'. FlushImpressions ds bulkSize v = Some (err, v') \<and>
                \<not> IsOperationRunning ImpressionsOperation (w_gate v') \<and> w_gate v' = w_gate v))"
proof (intro conjI allI impI)
  assume "d_IsOperationRunning d ImpressionsOperation (w_gate w)"
  then show "SynchronizeImpressions d bulkSize w = (None, w)"
    by (simp add: SynchronizeImpressions_def)
next
  fix g' assume "d_RequestOperation d ImpressionsOperation (w_gate w) = (False, g')"
  then show "FlushImpressions d bulkSize w = Some (Some flush_busy, w\<lparr>w_gate := g'\<rparr>)"
    by (simp add: FlushImpressions_def)
next
  fix g'
  assume a: "d_RequestOperation d ImpressionsOperation (w_gate w) = (True, g') \<and> 0 < d_DefaultSize d"
  let ?n = "if bulkSize \<noteq> 0 then bulkSize else d_MaxSizeToFlush d"
  from a have pos: "0 < d_DefaultSize d" by simp
  from flush_loop_returns [OF pos, of ?n "w\<lparr>w_gate := g'\<rparr>"] obtain err w1 where
    l: "flush_loop d ?n (w\<lparr>w_gate := g'\<rparr>) = Some (err, w1)" and g: "w_gate w1 = g'" by auto
  from a l g show "\<exists>err w'. FlushImpressions d bulkSize w = Some (err, w') \<and>
                w_gate w' = d_FinishOperation d ImpressionsOperation g'"
    by (simp add: FlushImpressions_def Let_def)
next
  assume a: "uses_gate ds \<and> IsOperationRunning ImpressionsOperation (w_gate v)"
  then have "d_RequestOperation ds ImpressionsOperation (w_gate v) = (False, w_gate v)"
    by (simp add: uses_gate_def RequestOperation_def IsOperationRunning_def)
  then show "FlushImpressions ds bulkSize v = Some (Some flush_busy, v)"
    by (simp add: FlushImpressions_def)
next
  assume a: "uses_gate ds \<and> \<not> IsOperationRunning ImpressionsOperation (w_gate v) \<and>
      0 < d_DefaultSize ds"
  let ?g1 = "(w_gate v)(ImpressionsOperation := True)"
  let ?n = "if bulkSize \<noteq> 0 then bulkSize else d_MaxSizeToFlush ds"
  from a have req: "d_RequestOperation ds ImpressionsOperation (w_gate v) = (True, ?g1)"
    and fin: "d_FinishOperation ds = FinishOperation"
    and pos: "0 < d_DefaultSize ds"
    by (simp_all add: uses_gate_def RequestOperation_def IsOperationRunning_def)
  from flush_loop_returns [OF pos, of ?n "v\<lparr>w_gate := ?g1\<rparr>"] obtain err v1 where
    l: "flush_loop ds ?n (v\<lparr>w_gate := ?g1\<rparr>) = Some (err, v1)" and g: "w_gate v1 = ?g1" by auto
  have restored: "FinishOperation ImpressionsOperation ?g1 = w_gate v"
    using a by (auto simp: FinishOperation_def IsOperationRunning_def fun_eq_iff)
  from req fin l g restored a
  show "\<exists>err v'. FlushImpressions ds bulkSize v = Some (err, v') \<and>
                \<not> IsOperationRunning ImpressionsOperation (w_gate v') \<and> w_gate v' = w_gate v"
    by (simp add: FlushImpressions_def Let_def)
qed


theorem impressions_gate_contract_witness:
  "SynchronizeImpressions (sample_deps (\<lambda>n. None)) 10
     (sample_world (\<lambda>kind. kind = ImpressionsOperation) [\<lparr>si_Impression = 7, si_Metadata = md0\<rparr>]) =
     (None, sample_world (\<lambda>kind. kind = ImpressionsOperation) [\<lparr>si_Impression = 7, si_Metadata = md0\<rparr>]) \<and>
   FlushImpressions (sample_deps (\<lambda>n. None)) 10
     (sample_world (\<lambda>kind. kind = ImpressionsOperation) [\<lparr>si_Impression = 7, si_Metadata = md0\<rparr>]) =
     Some (Some flush_busy,
           sample_world (\<lambda>kind. kind = ImpressionsOperation) [\<lparr>si_Impression = 7, si_Metadata = md0\<rparr>]) \<and>
   (\<exists>err v'. FlushImpressions (sample_deps (\<lambda>n. None)) 10
        (sample_world (\<lambda>kind. False) [\<lparr>si_Impression = 7, si_Metadata = md0\<rparr>]) = Some (err, v') \<and>
      \<not> IsOperationRunning ImpressionsOperation (w_gate v'))"
proof -
  let ?d = "sample_deps (\<lambda>n. None)"
  let ?busy = "sample_world (\<lambda>kind. kind = ImpressionsOperation) [\<lparr>si_Impression = 7, si_Metadata = md0\<rparr>]"
  let ?free = "sample_world (\<lambda>kind. False) [\<lparr>si_Impression = 7, si_Metadata = md0\<rparr>]"
  have ug: "uses_gate ?d" by (simp add: uses_gate_def sample_deps_def)
  have pos: "0 < d_DefaultSize ?d" by (simp add: sample_deps_def)
  have rb: "IsOperationRunning ImpressionsOperation (w_gate ?busy)"
    by (simp add: IsOperationRunning_def sample_world_def)
  have rf: "\<not> IsOperationRunning ImpressionsOperation (w_gate ?free)"
    by (simp add: IsOperationRunning_def sample_world_def)
  have rb': "d_IsOperationRunning ?d ImpressionsOperation (w_gate ?busy)"
    using rb by (simp add: sample_deps_def)
  note busy = impressions_gate_contract [where d = ?d and w = ?busy and ds = ?d and v = ?busy
      and bulkSize = 10]
  note free = impressions_gate_contract [where d = ?d and w = ?free and ds = ?d and v = ?free
      and bulkSize = 10]
  from busy rb' have 1: "SynchronizeImpressions ?d 10 ?busy = (None, ?busy)" by blast
  from busy ug rb have 2: "FlushImpressions ?d 10 ?busy = Some (Some flush_busy, ?busy)" by blast
  from free ug rf pos have 3: "\<exists>err v'. FlushImpressions ?d 10 ?free = Some (err, v') \<and>
      \<not> IsOperationRunning ImpressionsOperation (w_gate v')" by blast
  from 1 2 3 show ?thesis by (intro conjI)
qed


end
